theory Spec2Isabelle
  imports Complex_Main "HOL-Library.Code_Target_Numeral"
begin

section \<open>Arithmetic of the kernels\<close>

text \<open>
  The kernels of \<^verbatim>\<open>flash.py\<close> compute in float32. A value is a real number or one of
  the special values the kernels create on purpose or by accident (\<^verbatim>\<open>float("-inf")\<close> for a
  masked logit, and the infinities and NaN that arithmetic on it yields), with the IEEE
  rules for them. Rounding to float32 is modelled in the preprocess kernel, whose result
  is a float32 sum; in the other kernels a finite value is the real number.
\<close>

datatype xreal = Fin real | PInf | NInf | NaN

fun xneg :: "xreal \<Rightarrow> xreal" where
  "xneg (Fin a) = Fin (- a)"
| "xneg PInf = NInf"
| "xneg NInf = PInf"
| "xneg NaN = NaN"

fun xadd :: "xreal \<Rightarrow> xreal \<Rightarrow> xreal" where
  "xadd NaN _ = NaN"
| "xadd _ NaN = NaN"
| "xadd (Fin a) (Fin b) = Fin (a + b)"
| "xadd (Fin a) PInf = PInf"
| "xadd (Fin a) NInf = NInf"
| "xadd PInf (Fin b) = PInf"
| "xadd NInf (Fin b) = NInf"
| "xadd PInf PInf = PInf"
| "xadd NInf NInf = NInf"
| "xadd PInf NInf = NaN"
| "xadd NInf PInf = NaN"

definition xsub :: "xreal \<Rightarrow> xreal \<Rightarrow> xreal" where
  "xsub a b = xadd a (xneg b)"

fun xmul :: "xreal \<Rightarrow> xreal \<Rightarrow> xreal" where
  "xmul NaN _ = NaN"
| "xmul _ NaN = NaN"
| "xmul (Fin a) (Fin b) = Fin (a * b)"
| "xmul (Fin a) PInf = (if a = 0 then NaN else if 0 < a then PInf else NInf)"
| "xmul (Fin a) NInf = (if a = 0 then NaN else if 0 < a then NInf else PInf)"
| "xmul PInf (Fin b) = (if b = 0 then NaN else if 0 < b then PInf else NInf)"
| "xmul NInf (Fin b) = (if b = 0 then NaN else if 0 < b then NInf else PInf)"
| "xmul PInf PInf = PInf"
| "xmul NInf NInf = PInf"
| "xmul PInf NInf = NInf"
| "xmul NInf PInf = NInf"

text \<open>\<^verbatim>\<open>tl.maximum\<close>. Its operands here are logits and \<^verbatim>\<open>-inf\<close>, never NaN; the NaN
  rows are there to make the function total.\<close>

fun xmax :: "xreal \<Rightarrow> xreal \<Rightarrow> xreal" where
  "xmax NaN _ = NaN"
| "xmax _ NaN = NaN"
| "xmax PInf _ = PInf"
| "xmax _ PInf = PInf"
| "xmax NInf b = b"
| "xmax a NInf = a"
| "xmax (Fin a) (Fin b) = Fin (max a b)"

definition exp2 :: "real \<Rightarrow> real" where
  "exp2 x = 2 powr x"

text \<open>\<^verbatim>\<open>log2e: tl.constexpr = 1.4426950408889634\<close> is the double nearest to
  \<open>log\<^sub>2 e\<close>; with rounding left out it is that number.\<close>

definition log2e :: real where
  "log2e = 1 / ln 2"

fun xexp2 :: "xreal \<Rightarrow> xreal" where
  "xexp2 (Fin a) = Fin (exp2 a)"
| "xexp2 PInf = PInf"
| "xexp2 NInf = Fin 0"
| "xexp2 NaN = NaN"

fun xlog :: "xreal \<Rightarrow> xreal" where
  "xlog (Fin a) = (if 0 < a then Fin (ln a) else if a = 0 then NInf else NaN)"
| "xlog PInf = PInf"
| "xlog NInf = NaN"
| "xlog NaN = NaN"

text \<open>\<^verbatim>\<open>1.0 / l_i\<close>; \<^verbatim>\<open>l_i\<close> is a sum of non-negative terms, so a zero is \<open>+0\<close>.\<close>

fun xrecip :: "xreal \<Rightarrow> xreal" where
  "xrecip (Fin a) = (if a = 0 then PInf else Fin (1 / a))"
| "xrecip PInf = Fin 0"
| "xrecip NInf = Fin 0"
| "xrecip NaN = NaN"

text \<open>A block of \<open>n\<close> lanes is a function of the lane index; \<^verbatim>\<open>tl.sum\<close> and
  \<^verbatim>\<open>tl.max\<close> reduce it.\<close>

primrec tl_sum :: "nat \<Rightarrow> (nat \<Rightarrow> xreal) \<Rightarrow> xreal" where
  "tl_sum 0 f = Fin 0"
| "tl_sum (Suc n) f = xadd (tl_sum n f) (f n)"

primrec tl_max :: "nat \<Rightarrow> (nat \<Rightarrow> xreal) \<Rightarrow> xreal" where
  "tl_max 0 f = NInf"
| "tl_max (Suc n) f = xmax (tl_max n f) (f n)"

section \<open>32-bit offsets and float32 sums\<close>

text \<open>
  Two's complement wrap-around to \<open>w\<close> bits. A program id, \<^verbatim>\<open>tl.arange\<close> and their sums
  are int32; an integer argument of a kernel is int32 when its value fits and int64
  otherwise, and a product or sum has the width of its wider operand. The wrap-around is
  modelled in the preprocess kernel; the offsets of the other kernels are integers
  without bound.
\<close>

definition wrap_int :: "nat \<Rightarrow> int \<Rightarrow> int" where
  "wrap_int w x = (x + 2 ^ (w - 1)) mod 2 ^ w - 2 ^ (w - 1)"

definition arg_bits :: "int \<Rightarrow> nat" where
  "arg_bits s = (if - (2 ^ 31) \<le> s \<and> s < 2 ^ 31 then 32 else 64)"

definition idx_mul :: "int \<Rightarrow> int \<Rightarrow> int" where
  "idx_mul x s = wrap_int (arg_bits s) (x * s)"

definition idx_add :: "int \<Rightarrow> int \<Rightarrow> int \<Rightarrow> int \<Rightarrow> int" where
  "idx_add x s y t = wrap_int (max (arg_bits s) (arg_bits t)) (idx_mul x s + idx_mul y t)"

text \<open>
  Rounding to the nearest float32, ties to even: 24 bits of precision, the unit in the
  last place no smaller than \<open>2 powi -149\<close>, and an infinity from \<open>2 ^ 128\<close> on.
  \<open>f32_exp x\<close> is the binary exponent of \<open>x\<close> within the range of float32, found by
  counting up from \<open>-126\<close>, the exponent of the subnormal numbers, to at most \<open>127\<close>.
\<close>

definition round_even :: "real \<Rightarrow> int" where
  "round_even r =
     (let n = \<lfloor>r\<rfloor>; d = r - of_int n
      in if d < 1 / 2 then n else if 1 / 2 < d then n + 1 else if even n then n else n + 1)"

fun f32_exp_from :: "real \<Rightarrow> int \<Rightarrow> nat \<Rightarrow> int" where
  "f32_exp_from a e 0 = e"
| "f32_exp_from a e (Suc n) = (if 2 powi (e + 1) \<le> a then f32_exp_from a (e + 1) n else e)"

definition f32_exp :: "real \<Rightarrow> int" where
  "f32_exp x = f32_exp_from \<bar>x\<bar> (- 126) 253"

definition f32 :: "real \<Rightarrow> xreal" where
  "f32 x =
     (if x = 0 then Fin 0
      else let q = 2 powi (f32_exp x - 23);
               y = of_int (round_even (x / q)) * q
           in if \<bar>y\<bar> < 2 ^ 128 then Fin y else if 0 < x then PInf else NInf)"

fun xf32 :: "xreal \<Rightarrow> xreal" where
  "xf32 (Fin a) = f32 a"
| "xf32 PInf = PInf"
| "xf32 NInf = NInf"
| "xf32 NaN = NaN"

definition f32_mul :: "xreal \<Rightarrow> xreal \<Rightarrow> xreal" where
  "f32_mul a b = xf32 (xmul a b)"

definition f32_add :: "xreal \<Rightarrow> xreal \<Rightarrow> xreal" where
  "f32_add a b = xf32 (xadd a b)"

text \<open>
  \<^verbatim>\<open>tl.sum\<close> in float32. The source does not fix the order in which the lanes are added:
  a \<open>schedule\<close> is the tree of additions of the compiled kernel, \<open>reduces s n\<close> says that
  it adds each of the lanes \<open>0, \<dots>, n - 1\<close> once, and \<open>tree_sched k lo\<close> is the balanced
  tree over the \<open>2 ^ k\<close> lanes from \<open>lo\<close> on. \<open>is_f32 x\<close>: the real \<open>x\<close> is a float32;
  \<open>exact_sum s g\<close>: no addition of the schedule \<open>s\<close> rounds on the values \<open>g\<close>.
\<close>

datatype schedule = Lane nat | Add schedule schedule

fun lanes :: "schedule \<Rightarrow> nat list" where
  "lanes (Lane d) = [d]"
| "lanes (Add s t) = lanes s @ lanes t"

fun tl_sum_f32 :: "schedule \<Rightarrow> (nat \<Rightarrow> xreal) \<Rightarrow> xreal" where
  "tl_sum_f32 (Lane d) f = f d"
| "tl_sum_f32 (Add s t) f = f32_add (tl_sum_f32 s f) (tl_sum_f32 t f)"

definition reduces :: "schedule \<Rightarrow> nat \<Rightarrow> bool" where
  "reduces s n = (distinct (lanes s) \<and> set (lanes s) = {..<n})"

fun tree_sched :: "nat \<Rightarrow> nat \<Rightarrow> schedule" where
  "tree_sched 0 lo = Lane lo"
| "tree_sched (Suc k) lo = Add (tree_sched k lo) (tree_sched k (lo + 2 ^ k))"

definition is_f32 :: "real \<Rightarrow> bool" where
  "is_f32 x = (f32 x = Fin x)"

fun exact_sum :: "schedule \<Rightarrow> (nat \<Rightarrow> real) \<Rightarrow> bool" where
  "exact_sum (Lane d) g = True"
| "exact_sum (Add s t) g =
     (exact_sum s g \<and> exact_sum t g \<and> is_f32 (sum_list (map g (lanes s)) + sum_list (map g (lanes t))))"

section \<open>Tensors and launches\<close>

text \<open>
  A tensor of rank 4 as the host code sees it: its storage (by element offset from the
  data pointer), \<^verbatim>\<open>stride(0..3)\<close>, \<^verbatim>\<open>shape\<close> and device index. \<open>stride_n\<close> is the
  stride of axis 2, which the kernels call \<^verbatim>\<open>stride_qm\<close>, \<^verbatim>\<open>stride_kn\<close>, ...
  Storage holds real numbers, also beyond the tensor's last element.
\<close>

record tensor =
  data :: "int \<Rightarrow> real"
  stride_z :: int
  stride_h :: int
  stride_n :: int
  stride_k :: int
  dim_z :: nat
  dim_h :: nat
  dim_n :: nat
  dim_k :: nat
  device :: nat

text \<open>The scalar and \<^verbatim>\<open>tl.constexpr\<close> arguments the kernels share. \<open>nheads\<close> is the
  kernels' \<^verbatim>\<open>H\<close>; \<open>N_CTX\<close> is the number of query rows \<open>M\<close>.\<close>

record launch =
  sm_scale :: real
  nheads :: nat
  N_CTX :: nat
  P_SEQ :: int
  BLOCK_M :: nat
  BLOCK_DMODEL :: nat
  BLOCK_N :: nat
  CAUSAL :: bool
  DIVISIBLE_M :: bool
  DIVISIBLE_N :: bool

text \<open>\<^verbatim>\<open>tl.load(ptr, mask=...)\<close> with no \<^verbatim>\<open>other\<close>: a lane that is masked out holds an
  unspecified value, here \<open>junk\<close> of its address.\<close>

definition tl_load :: "(int \<Rightarrow> real) \<Rightarrow> (int \<Rightarrow> real) \<Rightarrow> bool \<Rightarrow> int \<Rightarrow> real" where
  "tl_load ptr junk msk a = (if msk then ptr a else junk a)"

text \<open>\<^verbatim>\<open>range(lo, hi, step)\<close> for \<open>lo \<ge> 0\<close> and \<open>step > 0\<close>.\<close>

definition py_range :: "nat \<Rightarrow> int \<Rightarrow> nat \<Rightarrow> nat list" where
  "py_range lo hi step =
     map (\<lambda>t. lo + t * step) [0..<nat ((hi - int lo + int step - 1) div int step)]"


text \<open>The element \<^verbatim>\<open>T[z, h, n, d]\<close> of a tensor, through its own strides.\<close>

definition elem :: "tensor \<Rightarrow> nat \<Rightarrow> nat \<Rightarrow> nat \<Rightarrow> nat \<Rightarrow> real" where
  "elem T z h n d =
     data T (int z * stride_z T + int h * stride_h T + int n * stride_n T + int d * stride_k T)"

section \<open>The forward kernel\<close>

text \<open>
  \<^verbatim>\<open>_fwd_kernel\<close>, for the program instance \<open>(start_m, off_h, off_z)\<close>. Every operation
  of the kernel on its \<^verbatim>\<open>BLOCK_M\<close> rows is row-wise, so the model follows one row lane
  \<open>i\<close>; \<open>j\<close> is a lane of the key block and \<open>d\<close> a feature lane.
\<close>

definition qk_scale :: "launch \<Rightarrow> real" where
  "qk_scale a = sm_scale a * log2e"

definition offs_m :: "launch \<Rightarrow> nat \<Rightarrow> nat \<Rightarrow> nat" where
  "offs_m a start_m i = start_m * BLOCK_M a + i"

definition fwd_mask_m :: "launch \<Rightarrow> nat \<Rightarrow> nat \<Rightarrow> bool" where
  "fwd_mask_m a start_m i =
     (if \<not> DIVISIBLE_M a then
        if start_m * BLOCK_M a + BLOCK_M a > N_CTX a then offs_m a start_m i < N_CTX a
        else True
      else True)"

definition fwd_q_ptrs :: "launch \<Rightarrow> tensor \<Rightarrow> nat \<Rightarrow> nat \<Rightarrow> nat \<Rightarrow> nat \<Rightarrow> nat \<Rightarrow> int" where
  "fwd_q_ptrs a Q start_m off_h off_z i d =
     int off_z * stride_z Q + int off_h * stride_h Q
       + (int (offs_m a start_m i) * stride_n Q + int d * stride_k Q)"

definition fwd_q ::
  "launch \<Rightarrow> tensor \<Rightarrow> (int \<Rightarrow> real) \<Rightarrow> nat \<Rightarrow> nat \<Rightarrow> nat \<Rightarrow> nat \<Rightarrow> nat \<Rightarrow> real" where
  "fwd_q a Q junk start_m off_h off_z i d =
     tl_load (data Q) junk (fwd_mask_m a start_m i) (fwd_q_ptrs a Q start_m off_h off_z i d)"

definition fwd_hi :: "launch \<Rightarrow> nat \<Rightarrow> int" where
  "fwd_hi a start_m =
     (if CAUSAL a then P_SEQ a + (int start_m + 1) * int (BLOCK_M a)
      else int (N_CTX a) + P_SEQ a)"

definition fwd_mask_n :: "launch \<Rightarrow> nat \<Rightarrow> nat \<Rightarrow> bool" where
  "fwd_mask_n a start_n j =
     (if \<not> DIVISIBLE_N a then
        if int start_n + int (BLOCK_N a) > int (N_CTX a) + P_SEQ a
        then int (start_n + j) < int (N_CTX a) + P_SEQ a
        else True
      else True)"

text \<open>
  The pointers into K and V. The source initialises \<^verbatim>\<open>k_ptrs\<close> with
  \<^verbatim>\<open>stride_vk\<close> and \<^verbatim>\<open>stride_vn\<close> and \<^verbatim>\<open>v_ptrs\<close> with \<^verbatim>\<open>stride_kn\<close> and
  \<^verbatim>\<open>stride_kk\<close>, and advances them by \<^verbatim>\<open>BLOCK_N * stride_kn\<close> and
  \<^verbatim>\<open>BLOCK_N * stride_vn\<close> at the end of each iteration: in the iteration for
  \<open>start_n\<close> the advance is \<open>start_n\<close> times the stride.
\<close>

definition fwd_k_ptrs :: "tensor \<Rightarrow> tensor \<Rightarrow> nat \<Rightarrow> nat \<Rightarrow> nat \<Rightarrow> nat \<Rightarrow> nat \<Rightarrow> int" where
  "fwd_k_ptrs K V off_h off_z start_n j d =
     int off_z * stride_z K + int off_h * stride_h K
       + (int d * stride_k V + int j * stride_n V) + int start_n * stride_n K"

definition fwd_v_ptrs :: "tensor \<Rightarrow> tensor \<Rightarrow> nat \<Rightarrow> nat \<Rightarrow> nat \<Rightarrow> nat \<Rightarrow> nat \<Rightarrow> int" where
  "fwd_v_ptrs K V off_h off_z start_n j d =
     int off_z * stride_z V + int off_h * stride_h V
       + (int j * stride_n K + int d * stride_k K) + int start_n * stride_n V"

definition fwd_k ::
  "launch \<Rightarrow> tensor \<Rightarrow> tensor \<Rightarrow> (int \<Rightarrow> real) \<Rightarrow> nat \<Rightarrow> nat \<Rightarrow> nat \<Rightarrow> nat \<Rightarrow> nat \<Rightarrow> real" where
  "fwd_k a K V junk off_h off_z start_n j d =
     tl_load (data K) junk (fwd_mask_n a start_n j) (fwd_k_ptrs K V off_h off_z start_n j d)"

definition fwd_v ::
  "launch \<Rightarrow> tensor \<Rightarrow> tensor \<Rightarrow> (int \<Rightarrow> real) \<Rightarrow> nat \<Rightarrow> nat \<Rightarrow> nat \<Rightarrow> nat \<Rightarrow> nat \<Rightarrow> real" where
  "fwd_v a K V junk off_h off_z start_n j d =
     tl_load (data V) junk (fwd_mask_n a start_n j) (fwd_v_ptrs K V off_h off_z start_n j d)"

text \<open>The logits of row lane \<open>i\<close> against the key block at \<open>start_n\<close>:
  \<^verbatim>\<open>tl.dot(q, k)\<close>, then \<^verbatim>\<open>-inf\<close> where \<^verbatim>\<open>mask_n\<close> is false and, under
  \<^verbatim>\<open>IS_CAUSAL\<close>, where \<^verbatim>\<open>P_SEQ + offs_m >= offs_n\<close> is false. (The "Dot I trick"
  multiplies \<^verbatim>\<open>q\<close> by the identity matrix and leaves it as it is.)\<close>

definition fwd_s ::
  "launch \<Rightarrow> tensor \<Rightarrow> tensor \<Rightarrow> tensor \<Rightarrow> (int \<Rightarrow> real) \<Rightarrow> nat \<Rightarrow> nat \<Rightarrow> nat \<Rightarrow> nat \<Rightarrow> nat \<Rightarrow> nat
     \<Rightarrow> xreal" where
  "fwd_s a Q K V junk start_m off_h off_z start_n i j =
     (let s = Fin (\<Sum>d<BLOCK_DMODEL a.
                fwd_q a Q junk start_m off_h off_z i d * fwd_k a K V junk off_h off_z start_n j d);
          s = (if fwd_mask_n a start_n j then s else NInf);
          s = (if CAUSAL a then
                 (if P_SEQ a + int (offs_m a start_m i) \<ge> int (start_n + j) then s else NInf)
               else s)
      in s)"

text \<open>One iteration of the loop over key blocks, for one row: the state is
  \<^verbatim>\<open>(m_i, l_i, acc)\<close>.\<close>

type_synonym row_state = "xreal \<times> xreal \<times> (nat \<Rightarrow> xreal)"

definition fwd_update ::
  "launch \<Rightarrow> (nat \<Rightarrow> xreal) \<Rightarrow> (nat \<Rightarrow> nat \<Rightarrow> real) \<Rightarrow> row_state \<Rightarrow> row_state" where
  "fwd_update a s v st =
     (case st of (m_i, l_i, acc) \<Rightarrow>
        let m_i_new = xmax m_i (tl_max (BLOCK_N a) s);
            alpha = xexp2 (xmul (xsub m_i m_i_new) (Fin (qk_scale a)));
            p = (\<lambda>j. xexp2 (xsub (xmul (s j) (Fin (qk_scale a)))
                                  (xmul m_i_new (Fin (qk_scale a)))));
            acc = (\<lambda>d. xmul (acc d) alpha);
            acc = (\<lambda>d. xadd (acc d) (tl_sum (BLOCK_N a) (\<lambda>j. xmul (p j) (Fin (v j d)))));
            l_i = xadd (xmul l_i alpha) (tl_sum (BLOCK_N a) p)
        in (m_i_new, l_i, acc))"

definition fwd_init :: row_state where
  "fwd_init = (NInf, Fin 0, \<lambda>d. Fin 0)"

definition fwd_loop ::
  "launch \<Rightarrow> tensor \<Rightarrow> tensor \<Rightarrow> tensor \<Rightarrow> (int \<Rightarrow> real) \<Rightarrow> nat \<Rightarrow> nat \<Rightarrow> nat \<Rightarrow> nat \<Rightarrow> row_state" where
  "fwd_loop a Q K V junk start_m off_h off_z i =
     foldl (\<lambda>st start_n.
              fwd_update a (fwd_s a Q K V junk start_m off_h off_z start_n i)
                           (fwd_v a K V junk off_h off_z start_n) st)
           fwd_init (py_range 0 (fwd_hi a start_m) (BLOCK_N a))"

text \<open>Write back: \<^verbatim>\<open>acc * (1.0 / l_i)\<close> and \<^verbatim>\<open>m_i * sm_scale + tl.log(l_i)\<close>.\<close>

definition fwd_o_row ::
  "launch \<Rightarrow> tensor \<Rightarrow> tensor \<Rightarrow> tensor \<Rightarrow> (int \<Rightarrow> real) \<Rightarrow> nat \<Rightarrow> nat \<Rightarrow> nat \<Rightarrow> nat \<Rightarrow> nat \<Rightarrow> xreal" where
  "fwd_o_row a Q K V junk start_m off_h off_z i d =
     (case fwd_loop a Q K V junk start_m off_h off_z i of
        (m_i, l_i, acc) \<Rightarrow> xmul (acc d) (xrecip l_i))"

definition fwd_l_row ::
  "launch \<Rightarrow> tensor \<Rightarrow> tensor \<Rightarrow> tensor \<Rightarrow> (int \<Rightarrow> real) \<Rightarrow> nat \<Rightarrow> nat \<Rightarrow> nat \<Rightarrow> nat \<Rightarrow> xreal" where
  "fwd_l_row a Q K V junk start_m off_h off_z i =
     (case fwd_loop a Q K V junk start_m off_h off_z i of
        (m_i, l_i, acc) \<Rightarrow> xadd (xmul m_i (Fin (sm_scale a))) (xlog l_i))"

definition l_ptrs :: "launch \<Rightarrow> nat \<Rightarrow> nat \<Rightarrow> nat \<Rightarrow> nat \<Rightarrow> int" where
  "l_ptrs a start_m off_h off_z i =
     int ((off_z * nheads a + off_h) * N_CTX a) + int (offs_m a start_m i)"

definition fwd_o_ptrs :: "launch \<Rightarrow> tensor \<Rightarrow> nat \<Rightarrow> nat \<Rightarrow> nat \<Rightarrow> nat \<Rightarrow> nat \<Rightarrow> int" where
  "fwd_o_ptrs a Out start_m off_h off_z i d =
     int off_z * stride_z Out + int off_h * stride_h Out
       + (int (offs_m a start_m i) * stride_n Out + int d * stride_k Out)"

text \<open>The stores of one program instance, as (address, value) pairs in L and in O;
  \<^verbatim>\<open>mask=mask_m\<close> drops the lanes beyond the last row.\<close>

definition fwd_kernel_L ::
  "launch \<Rightarrow> tensor \<Rightarrow> tensor \<Rightarrow> tensor \<Rightarrow> (int \<Rightarrow> real) \<Rightarrow> nat \<Rightarrow> nat \<Rightarrow> nat \<Rightarrow> (int \<times> xreal) list" where
  "fwd_kernel_L a Q K V junk start_m off_h off_z =
     map (\<lambda>i. (l_ptrs a start_m off_h off_z i, fwd_l_row a Q K V junk start_m off_h off_z i))
         (filter (fwd_mask_m a start_m) [0..<BLOCK_M a])"

definition fwd_kernel_O ::
  "launch \<Rightarrow> tensor \<Rightarrow> tensor \<Rightarrow> tensor \<Rightarrow> tensor \<Rightarrow> (int \<Rightarrow> real) \<Rightarrow> nat \<Rightarrow> nat \<Rightarrow> nat
     \<Rightarrow> (int \<times> xreal) list" where
  "fwd_kernel_O a Q K V Out junk start_m off_h off_z =
     concat (map (\<lambda>i. map (\<lambda>d. (fwd_o_ptrs a Out start_m off_h off_z i d,
                                 fwd_o_row a Q K V junk start_m off_h off_z i d))
                           [0..<BLOCK_DMODEL a])
                 (filter (fwd_mask_m a start_m) [0..<BLOCK_M a]))"


text \<open>
  What the forward kernel reads as \<^verbatim>\<open>K[off_z, off_h, n, d]\<close> and
  \<^verbatim>\<open>V[off_z, off_h, n, d]\<close>: column \<open>n\<close> is lane \<open>n mod BLOCK_N\<close> of the block that
  starts at \<open>n div BLOCK_N * BLOCK_N\<close>.
\<close>

definition fwd_k_read :: "launch \<Rightarrow> tensor \<Rightarrow> tensor \<Rightarrow> nat \<Rightarrow> nat \<Rightarrow> nat \<Rightarrow> nat \<Rightarrow> real" where
  "fwd_k_read a K V off_h off_z n d =
     data K (fwd_k_ptrs K V off_h off_z (n div BLOCK_N a * BLOCK_N a) (n mod BLOCK_N a) d)"

definition fwd_v_read :: "launch \<Rightarrow> tensor \<Rightarrow> tensor \<Rightarrow> nat \<Rightarrow> nat \<Rightarrow> nat \<Rightarrow> nat \<Rightarrow> real" where
  "fwd_v_read a K V off_h off_z n d =
     data V (fwd_v_ptrs K V off_h off_z (n div BLOCK_N a * BLOCK_N a) (n mod BLOCK_N a) d)"

section \<open>The attention the forward pass is to compute\<close>

text \<open>The number of keys \<open>N\<close>: the host passes \<open>P_SEQ = N - M\<close> and \<open>N_CTX = M\<close>.\<close>

definition n_keys :: "launch \<Rightarrow> nat" where
  "n_keys a = nat (int (N_CTX a) + P_SEQ a)"

text \<open>Key \<open>n\<close> is unmasked for query row \<open>m\<close>: it is in range and, under causal
  masking, not after \<open>P_SEQ + m\<close>.\<close>

definition unmasked :: "launch \<Rightarrow> nat \<Rightarrow> nat \<Rightarrow> bool" where
  "unmasked a m n = (n < n_keys a \<and> (CAUSAL a \<longrightarrow> int n \<le> P_SEQ a + int m))"

text \<open>Softmax over the unmasked keys, applied to the values \<open>v\<close>: a masked logit is
  \<open>-\<infinity>\<close> and has weight \<open>exp (-\<infinity>) = 0\<close>.\<close>

definition softmax_weight :: "(nat \<Rightarrow> bool) \<Rightarrow> (nat \<Rightarrow> real) \<Rightarrow> nat \<Rightarrow> real" where
  "softmax_weight vis lg n = (if vis n then exp (lg n) else 0)"

definition softmax_out :: "nat \<Rightarrow> (nat \<Rightarrow> bool) \<Rightarrow> (nat \<Rightarrow> real) \<Rightarrow> (nat \<Rightarrow> real) \<Rightarrow> real" where
  "softmax_out N vis lg v =
     (\<Sum>n<N. softmax_weight vis lg n * v n) / (\<Sum>n<N. softmax_weight vis lg n)"

definition qk_dot :: "nat \<Rightarrow> (nat \<Rightarrow> real) \<Rightarrow> (nat \<Rightarrow> real) \<Rightarrow> real" where
  "qk_dot D q k = (\<Sum>d<D. q d * k d)"

text \<open>\<open>O[z, h, m, d]\<close> and the log-normaliser of row \<open>m\<close> as the specification gives
  them, over the logical elements of Q, K and V.\<close>

definition attention_ref :: "launch \<Rightarrow> tensor \<Rightarrow> tensor \<Rightarrow> tensor \<Rightarrow> nat \<Rightarrow> nat \<Rightarrow> nat \<Rightarrow> nat \<Rightarrow> real" where
  "attention_ref a Q K V z h m d =
     softmax_out (n_keys a) (unmasked a m)
       (\<lambda>n. qk_dot (BLOCK_DMODEL a) (elem Q z h m) (elem K z h n) * sm_scale a)
       (\<lambda>n. elem V z h n d)"

text \<open>The same, over the elements the forward kernel addresses.\<close>

definition fwd_logit :: "launch \<Rightarrow> tensor \<Rightarrow> tensor \<Rightarrow> tensor \<Rightarrow> nat \<Rightarrow> nat \<Rightarrow> nat \<Rightarrow> nat \<Rightarrow> real" where
  "fwd_logit a Q K V z h m n =
     qk_dot (BLOCK_DMODEL a) (elem Q z h m) (fwd_k_read a K V h z n)"

definition attention_as_read ::
  "launch \<Rightarrow> tensor \<Rightarrow> tensor \<Rightarrow> tensor \<Rightarrow> nat \<Rightarrow> nat \<Rightarrow> nat \<Rightarrow> nat \<Rightarrow> real" where
  "attention_as_read a Q K V z h m d =
     softmax_out (n_keys a) (unmasked a m)
       (\<lambda>n. fwd_logit a Q K V z h m n * sm_scale a)
       (\<lambda>n. fwd_v_read a K V h z n d)"


section \<open>Launching a kernel on a grid\<close>

text \<open>\<^verbatim>\<open>triton.cdiv\<close>, and the stores of all program instances of a grid
  \<open>(n0, n1, n2)\<close>. The instances run in no particular order; the list is one of them.\<close>

definition cdiv :: "nat \<Rightarrow> nat \<Rightarrow> nat" where
  "cdiv x y = (x + y - 1) div y"

definition launch_grid :: "nat \<times> nat \<times> nat \<Rightarrow> (nat \<Rightarrow> nat \<Rightarrow> nat \<Rightarrow> 'a list) \<Rightarrow> 'a list" where
  "launch_grid g kern =
     concat (map (\<lambda>z. concat (map (\<lambda>h. concat (map (\<lambda>t. kern t h z) [0..<fst g]))
                                   [0..<fst (snd g)]))
                 [0..<snd (snd g)])"

text \<open>A buffer after a list of stores, the first store first.\<close>

definition apply_stores :: "(int \<Rightarrow> 'v) \<Rightarrow> (int \<times> 'v) list \<Rightarrow> (int \<Rightarrow> 'v)" where
  "apply_stores buf sts = foldl (\<lambda>b s. b(fst s := snd s)) buf sts"

section \<open>The backward preprocess kernel\<close>

text \<open>
  \<^verbatim>\<open>_bwd_preprocess\<close>: \<open>N_CTX\<close> is its \<^verbatim>\<open>M\<close> and \<open>BLOCK_DMODEL\<close> its
  \<^verbatim>\<open>D_HEAD\<close>; \<open>sd = (stride_dz, stride_dh, stride_dm)\<close>. Offsets are computed as the
  kernel computes them, in 32-bit integers up to the addition to the pointer. Loads are
  converted to float32, the products are float32 products, and \<^verbatim>\<open>tl.sum\<close> adds them
  in the order \<open>sched\<close>.
\<close>

definition pre_off_m_base :: "launch \<Rightarrow> nat \<Rightarrow> int" where
  "pre_off_m_base a pid_m = wrap_int 32 (int pid_m * int (BLOCK_M a))"

definition pre_off_m :: "launch \<Rightarrow> nat \<Rightarrow> nat \<Rightarrow> int" where
  "pre_off_m a pid_m i = wrap_int 32 (pre_off_m_base a pid_m + int i)"

definition pre_mask_m :: "launch \<Rightarrow> nat \<Rightarrow> nat \<Rightarrow> bool" where
  "pre_mask_m a pid_m i =
     (if \<not> DIVISIBLE_M a then
        if wrap_int 32 (pre_off_m_base a pid_m + int (BLOCK_M a)) > int (N_CTX a)
        then pre_off_m a pid_m i < int (N_CTX a)
        else True
      else True)"

definition pre_ptrs :: "launch \<Rightarrow> tensor \<Rightarrow> nat \<Rightarrow> nat \<Rightarrow> nat \<Rightarrow> nat \<Rightarrow> nat \<Rightarrow> int" where
  "pre_ptrs a T pid_m off_h off_z i d =
     idx_add (int off_z) (stride_z T) (int off_h) (stride_h T)
       + idx_mul (pre_off_m a pid_m i) (stride_n T) + idx_mul (int d) (stride_k T)"

definition pre_load ::
  "launch \<Rightarrow> tensor \<Rightarrow> (int \<Rightarrow> real) \<Rightarrow> nat \<Rightarrow> nat \<Rightarrow> nat \<Rightarrow> nat \<Rightarrow> nat \<Rightarrow> xreal" where
  "pre_load a T junk pid_m off_h off_z i d =
     f32 (tl_load (data T) junk (pre_mask_m a pid_m i) (pre_ptrs a T pid_m off_h off_z i d))"

definition pre_delta ::
  "schedule \<Rightarrow> launch \<Rightarrow> tensor \<Rightarrow> tensor \<Rightarrow> (int \<Rightarrow> real) \<Rightarrow> nat \<Rightarrow> nat \<Rightarrow> nat \<Rightarrow> nat \<Rightarrow> xreal" where
  "pre_delta sched a Out DO junk pid_m off_h off_z i =
     tl_sum_f32 sched (\<lambda>d. f32_mul (pre_load a Out junk pid_m off_h off_z i d)
                                  (pre_load a DO junk pid_m off_h off_z i d))"

definition pre_d_ptrs :: "launch \<Rightarrow> int \<times> int \<times> int \<Rightarrow> nat \<Rightarrow> nat \<Rightarrow> nat \<Rightarrow> nat \<Rightarrow> int" where
  "pre_d_ptrs a sd pid_m off_h off_z i =
     idx_add (int off_z) (fst sd) (int off_h) (fst (snd sd))
       + idx_mul (pre_off_m a pid_m i) (snd (snd sd))"

definition bwd_preprocess ::
  "schedule \<Rightarrow> launch \<Rightarrow> tensor \<Rightarrow> tensor \<Rightarrow> int \<times> int \<times> int \<Rightarrow> (int \<Rightarrow> real) \<Rightarrow> nat \<Rightarrow> nat \<Rightarrow> nat
     \<Rightarrow> (int \<times> xreal) list" where
  "bwd_preprocess sched a Out DO sd junk pid_m off_h off_z =
     map (\<lambda>i. (pre_d_ptrs a sd pid_m off_h off_z i,
                pre_delta sched a Out DO junk pid_m off_h off_z i))
         (filter (pre_mask_m a pid_m) [0..<BLOCK_M a])"

section \<open>The backward kernels for dK, dV and for dQ\<close>

text \<open>The tensors both kernels read: Q, K, V, dO, and the pointers \<^verbatim>\<open>L\<close> and
  \<^verbatim>\<open>D\<close> (Delta); \<open>junk_in\<close> is what a masked-out lane holds.\<close>

record bwd_in =
  Q_in :: tensor
  K_in :: tensor
  V_in :: tensor
  DO_in :: tensor
  L_in :: "int \<Rightarrow> real"
  D_in :: "int \<Rightarrow> real"
  junk_in :: "int \<Rightarrow> real"

definition row_ptrs :: "tensor \<Rightarrow> nat \<Rightarrow> nat \<Rightarrow> nat \<Rightarrow> nat \<Rightarrow> int" where
  "row_ptrs T off_h off_z n d =
     int off_z * stride_z T + int off_h * stride_h T + (int n * stride_n T + int d * stride_k T)"

definition stat_ptrs :: "launch \<Rightarrow> nat \<Rightarrow> nat \<Rightarrow> nat \<Rightarrow> int" where
  "stat_ptrs a off_h off_z m = int ((off_z * nheads a + off_h) * N_CTX a) + int m"

subsection \<open>\<^verbatim>\<open>_bwd_kv_kernel\<close>\<close>

text \<open>For the program instance \<open>(start_n, off_h, off_z)\<close>: \<open>j\<close> is a lane of its key
  block, \<open>i\<close> a lane of the query block at row \<open>start_m\<close> of the sweep.\<close>

definition bwd_kv_lo :: "launch \<Rightarrow> nat \<Rightarrow> nat" where
  "bwd_kv_lo a start_n =
     (if CAUSAL a then
        nat (max (int (start_n * BLOCK_N a) - P_SEQ a) 0) div BLOCK_M a * BLOCK_M a
      else 0)"

definition bwd_kv_offs_n :: "launch \<Rightarrow> nat \<Rightarrow> nat \<Rightarrow> nat" where
  "bwd_kv_offs_n a start_n j = start_n * BLOCK_N a + j"

definition bwd_kv_mask_n :: "launch \<Rightarrow> nat \<Rightarrow> nat \<Rightarrow> bool" where
  "bwd_kv_mask_n a start_n j =
     (if \<not> DIVISIBLE_N a then
        if int (start_n * BLOCK_N a + BLOCK_N a) > int (N_CTX a) + P_SEQ a
        then int (bwd_kv_offs_n a start_n j) < int (N_CTX a) + P_SEQ a
        else True
      else True)"

definition bwd_kv_k :: "launch \<Rightarrow> bwd_in \<Rightarrow> nat \<Rightarrow> nat \<Rightarrow> nat \<Rightarrow> nat \<Rightarrow> nat \<Rightarrow> real" where
  "bwd_kv_k a x start_n off_h off_z j d =
     tl_load (data (K_in x)) (junk_in x) (bwd_kv_mask_n a start_n j)
       (row_ptrs (K_in x) off_h off_z (bwd_kv_offs_n a start_n j) d)"

definition bwd_kv_v :: "launch \<Rightarrow> bwd_in \<Rightarrow> nat \<Rightarrow> nat \<Rightarrow> nat \<Rightarrow> nat \<Rightarrow> nat \<Rightarrow> real" where
  "bwd_kv_v a x start_n off_h off_z j d =
     tl_load (data (V_in x)) (junk_in x) (bwd_kv_mask_n a start_n j)
       (row_ptrs (V_in x) off_h off_z (bwd_kv_offs_n a start_n j) d)"

definition bwd_kv_mask_m :: "launch \<Rightarrow> nat \<Rightarrow> nat \<Rightarrow> bool" where
  "bwd_kv_mask_m a start_m i =
     (if \<not> DIVISIBLE_M a then
        if start_m + BLOCK_M a > N_CTX a then start_m + i < N_CTX a else True
      else True)"

text \<open>\<^verbatim>\<open>valid_mask\<close>: the row mask in a partial query block (\<^verbatim>\<open># & mask_n\<close> is
  commented out there), the column mask otherwise.\<close>

definition bwd_kv_valid_mask :: "launch \<Rightarrow> nat \<Rightarrow> nat \<Rightarrow> nat \<Rightarrow> nat \<Rightarrow> bool" where
  "bwd_kv_valid_mask a start_n start_m i j =
     (if \<not> DIVISIBLE_M a then
        if start_m + BLOCK_M a > N_CTX a then start_m + i < N_CTX a
        else bwd_kv_mask_n a start_n j
      else bwd_kv_mask_n a start_n j)"

definition bwd_kv_causal_mask :: "launch \<Rightarrow> nat \<Rightarrow> nat \<Rightarrow> nat \<Rightarrow> nat \<Rightarrow> bool" where
  "bwd_kv_causal_mask a start_n start_m i j =
     (P_SEQ a + int (start_m + i) \<ge> int (bwd_kv_offs_n a start_n j))"

definition bwd_kv_q :: "launch \<Rightarrow> bwd_in \<Rightarrow> nat \<Rightarrow> nat \<Rightarrow> nat \<Rightarrow> nat \<Rightarrow> nat \<Rightarrow> real" where
  "bwd_kv_q a x off_h off_z start_m i d =
     tl_load (data (Q_in x)) (junk_in x) (bwd_kv_mask_m a start_m i)
       (row_ptrs (Q_in x) off_h off_z (start_m + i) d)"

definition bwd_kv_do :: "launch \<Rightarrow> bwd_in \<Rightarrow> nat \<Rightarrow> nat \<Rightarrow> nat \<Rightarrow> nat \<Rightarrow> nat \<Rightarrow> real" where
  "bwd_kv_do a x off_h off_z start_m i d =
     tl_load (data (DO_in x)) (junk_in x) (bwd_kv_mask_m a start_m i)
       (row_ptrs (DO_in x) off_h off_z (start_m + i) d)"

definition bwd_kv_l :: "launch \<Rightarrow> bwd_in \<Rightarrow> nat \<Rightarrow> nat \<Rightarrow> nat \<Rightarrow> nat \<Rightarrow> real" where
  "bwd_kv_l a x off_h off_z start_m i =
     tl_load (L_in x) (junk_in x) (bwd_kv_mask_m a start_m i) (stat_ptrs a off_h off_z (start_m + i))"

definition bwd_kv_delta :: "launch \<Rightarrow> bwd_in \<Rightarrow> nat \<Rightarrow> nat \<Rightarrow> nat \<Rightarrow> nat \<Rightarrow> real" where
  "bwd_kv_delta a x off_h off_z start_m i =
     tl_load (D_in x) (junk_in x) (bwd_kv_mask_m a start_m i) (stat_ptrs a off_h off_z (start_m + i))"

text \<open>The recomputed probabilities: no masking of \<^verbatim>\<open>s\<close>, zeros written into
  \<^verbatim>\<open>p\<close> afterwards.\<close>

definition bwd_kv_p :: "launch \<Rightarrow> bwd_in \<Rightarrow> nat \<Rightarrow> nat \<Rightarrow> nat \<Rightarrow> nat \<Rightarrow> nat \<Rightarrow> nat \<Rightarrow> real" where
  "bwd_kv_p a x start_n off_h off_z start_m i j =
     (let s = (\<Sum>d<BLOCK_DMODEL a. bwd_kv_q a x off_h off_z start_m i d
                                      * bwd_kv_k a x start_n off_h off_z j d);
          l = bwd_kv_l a x off_h off_z start_m i;
          p = exp2 (s * qk_scale a - l * log2e);
          p = (if bwd_kv_valid_mask a start_n start_m i j then p else 0);
          p = (if CAUSAL a then (if bwd_kv_causal_mask a start_n start_m i j then p else 0) else p)
      in p)"

definition bwd_kv_ds :: "launch \<Rightarrow> bwd_in \<Rightarrow> nat \<Rightarrow> nat \<Rightarrow> nat \<Rightarrow> nat \<Rightarrow> nat \<Rightarrow> nat \<Rightarrow> real" where
  "bwd_kv_ds a x start_n off_h off_z start_m i j =
     (let p = bwd_kv_p a x start_n off_h off_z start_m i j;
          dp = (\<Sum>d<BLOCK_DMODEL a. bwd_kv_do a x off_h off_z start_m i d
                                       * bwd_kv_v a x start_n off_h off_z j d);
          ds = p * (dp - bwd_kv_delta a x off_h off_z start_m i);
          ds = (if bwd_kv_valid_mask a start_n start_m i j then ds else 0);
          ds = (if CAUSAL a then (if bwd_kv_causal_mask a start_n start_m i j then ds else 0) else ds)
      in ds)"

text \<open>One iteration of the sweep over query blocks; the state is \<^verbatim>\<open>(dk, dv)\<close>, by
  key lane and feature.\<close>

type_synonym kv_state = "(nat \<Rightarrow> nat \<Rightarrow> real) \<times> (nat \<Rightarrow> nat \<Rightarrow> real)"

definition bwd_kv_update ::
  "launch \<Rightarrow> bwd_in \<Rightarrow> nat \<Rightarrow> nat \<Rightarrow> nat \<Rightarrow> nat \<Rightarrow> kv_state \<Rightarrow> kv_state" where
  "bwd_kv_update a x start_n off_h off_z start_m st =
     (case st of (dk, dv) \<Rightarrow>
        (\<lambda>j d. dk j d + (\<Sum>i<BLOCK_M a. bwd_kv_ds a x start_n off_h off_z start_m i j
                                           * bwd_kv_q a x off_h off_z start_m i d),
         \<lambda>j d. dv j d + (\<Sum>i<BLOCK_M a. bwd_kv_p a x start_n off_h off_z start_m i j
                                           * bwd_kv_do a x off_h off_z start_m i d)))"

definition bwd_kv_sweep :: "launch \<Rightarrow> bwd_in \<Rightarrow> nat \<Rightarrow> nat \<Rightarrow> nat \<Rightarrow> nat \<Rightarrow> kv_state" where
  "bwd_kv_sweep a x start_n off_h off_z lo =
     foldl (\<lambda>st start_m. bwd_kv_update a x start_n off_h off_z start_m st)
           (\<lambda>j d. 0, \<lambda>j d. 0) (py_range lo (int (N_CTX a)) (BLOCK_M a))"

definition bwd_kv_dk :: "launch \<Rightarrow> bwd_in \<Rightarrow> nat \<Rightarrow> nat \<Rightarrow> nat \<Rightarrow> nat \<Rightarrow> nat \<Rightarrow> real" where
  "bwd_kv_dk a x start_n off_h off_z j d =
     fst (bwd_kv_sweep a x start_n off_h off_z (bwd_kv_lo a start_n)) j d * sm_scale a"

definition bwd_kv_dv :: "launch \<Rightarrow> bwd_in \<Rightarrow> nat \<Rightarrow> nat \<Rightarrow> nat \<Rightarrow> nat \<Rightarrow> nat \<Rightarrow> real" where
  "bwd_kv_dv a x start_n off_h off_z j d =
     snd (bwd_kv_sweep a x start_n off_h off_z (bwd_kv_lo a start_n)) j d"

definition bwd_kv_kernel_dk ::
  "launch \<Rightarrow> bwd_in \<Rightarrow> tensor \<Rightarrow> nat \<Rightarrow> nat \<Rightarrow> nat \<Rightarrow> (int \<times> real) list" where
  "bwd_kv_kernel_dk a x DK start_n off_h off_z =
     concat (map (\<lambda>j. map (\<lambda>d. (row_ptrs DK off_h off_z (bwd_kv_offs_n a start_n j) d,
                                 bwd_kv_dk a x start_n off_h off_z j d))
                           [0..<BLOCK_DMODEL a])
                 (filter (bwd_kv_mask_n a start_n) [0..<BLOCK_N a]))"

definition bwd_kv_kernel_dv ::
  "launch \<Rightarrow> bwd_in \<Rightarrow> tensor \<Rightarrow> nat \<Rightarrow> nat \<Rightarrow> nat \<Rightarrow> (int \<times> real) list" where
  "bwd_kv_kernel_dv a x DV start_n off_h off_z =
     concat (map (\<lambda>j. map (\<lambda>d. (row_ptrs DV off_h off_z (bwd_kv_offs_n a start_n j) d,
                                 bwd_kv_dv a x start_n off_h off_z j d))
                           [0..<BLOCK_DMODEL a])
                 (filter (bwd_kv_mask_n a start_n) [0..<BLOCK_N a]))"

subsection \<open>\<^verbatim>\<open>_bwd_q_kernel\<close>\<close>

text \<open>For the program instance \<open>(start_m, off_h, off_z)\<close>. The row mask compares with
  \<^verbatim>\<open>N_CTX % BLOCK_M\<close> and the column mask with \<^verbatim>\<open>(N_CTX + P_SEQ) % BLOCK_N\<close>, as
  the source does.\<close>

definition bwd_q_mask_m :: "launch \<Rightarrow> nat \<Rightarrow> nat \<Rightarrow> bool" where
  "bwd_q_mask_m a start_m i =
     (if \<not> DIVISIBLE_M a then
        if start_m * BLOCK_M a + BLOCK_M a > N_CTX a
        then offs_m a start_m i < N_CTX a mod BLOCK_M a
        else True
      else True)"

definition bwd_q_q :: "launch \<Rightarrow> bwd_in \<Rightarrow> nat \<Rightarrow> nat \<Rightarrow> nat \<Rightarrow> nat \<Rightarrow> nat \<Rightarrow> real" where
  "bwd_q_q a x start_m off_h off_z i d =
     tl_load (data (Q_in x)) (junk_in x) (bwd_q_mask_m a start_m i)
       (row_ptrs (Q_in x) off_h off_z (offs_m a start_m i) d)"

definition bwd_q_do :: "launch \<Rightarrow> bwd_in \<Rightarrow> nat \<Rightarrow> nat \<Rightarrow> nat \<Rightarrow> nat \<Rightarrow> nat \<Rightarrow> real" where
  "bwd_q_do a x start_m off_h off_z i d =
     tl_load (data (DO_in x)) (junk_in x) (bwd_q_mask_m a start_m i)
       (row_ptrs (DO_in x) off_h off_z (offs_m a start_m i) d)"

definition bwd_q_delta :: "launch \<Rightarrow> bwd_in \<Rightarrow> nat \<Rightarrow> nat \<Rightarrow> nat \<Rightarrow> nat \<Rightarrow> real" where
  "bwd_q_delta a x start_m off_h off_z i =
     tl_load (D_in x) (junk_in x) (bwd_q_mask_m a start_m i)
       (stat_ptrs a off_h off_z (offs_m a start_m i))"

definition bwd_q_l :: "launch \<Rightarrow> bwd_in \<Rightarrow> nat \<Rightarrow> nat \<Rightarrow> nat \<Rightarrow> nat \<Rightarrow> real" where
  "bwd_q_l a x start_m off_h off_z i =
     tl_load (L_in x) (junk_in x) (bwd_q_mask_m a start_m i)
       (stat_ptrs a off_h off_z (offs_m a start_m i))"

definition bwd_q_hi :: "launch \<Rightarrow> nat \<Rightarrow> int" where
  "bwd_q_hi a start_m =
     (if CAUSAL a then P_SEQ a + (int start_m + 1) * int (BLOCK_M a)
      else int (N_CTX a) + P_SEQ a)"

text \<open>\<^verbatim>\<open>mask_n\<close> of the iteration for \<open>start_n\<close>; where the source has
  \<^verbatim>\<open>mask_n = None\<close> every lane is in.\<close>

definition bwd_q_mask_n :: "launch \<Rightarrow> nat \<Rightarrow> nat \<Rightarrow> bool" where
  "bwd_q_mask_n a start_n j =
     (if \<not> DIVISIBLE_N a then
        if int (start_n + BLOCK_N a) > int (N_CTX a) + P_SEQ a
        then int (start_n + j) < (int (N_CTX a) + P_SEQ a) mod int (BLOCK_N a)
        else True
      else True)"

definition bwd_q_k :: "launch \<Rightarrow> bwd_in \<Rightarrow> nat \<Rightarrow> nat \<Rightarrow> nat \<Rightarrow> nat \<Rightarrow> nat \<Rightarrow> real" where
  "bwd_q_k a x off_h off_z start_n j d =
     tl_load (data (K_in x)) (junk_in x) (bwd_q_mask_n a start_n j)
       (row_ptrs (K_in x) off_h off_z (start_n + j) d)"

definition bwd_q_v :: "launch \<Rightarrow> bwd_in \<Rightarrow> nat \<Rightarrow> nat \<Rightarrow> nat \<Rightarrow> nat \<Rightarrow> nat \<Rightarrow> real" where
  "bwd_q_v a x off_h off_z start_n j d =
     tl_load (data (V_in x)) (junk_in x) (bwd_q_mask_n a start_n j)
       (row_ptrs (V_in x) off_h off_z (start_n + j) d)"

definition bwd_q_ds :: "launch \<Rightarrow> bwd_in \<Rightarrow> nat \<Rightarrow> nat \<Rightarrow> nat \<Rightarrow> nat \<Rightarrow> nat \<Rightarrow> nat \<Rightarrow> real" where
  "bwd_q_ds a x start_m off_h off_z start_n i j =
     (let s = (\<Sum>d<BLOCK_DMODEL a. bwd_q_q a x start_m off_h off_z i d
                                      * bwd_q_k a x off_h off_z start_n j d);
          p = exp2 (s * qk_scale a - bwd_q_l a x start_m off_h off_z i * log2e);
          dp = (\<Sum>d<BLOCK_DMODEL a. bwd_q_do a x start_m off_h off_z i d
                                       * bwd_q_v a x off_h off_z start_n j d);
          ds = p * (dp - bwd_q_delta a x start_m off_h off_z i);
          ds = (if bwd_q_mask_n a start_n j then ds else 0);
          ds = (if CAUSAL a then
                  (if P_SEQ a + int (offs_m a start_m i) \<ge> int (start_n + j) then ds else 0)
                else ds)
      in ds)"

definition bwd_q_update ::
  "launch \<Rightarrow> bwd_in \<Rightarrow> nat \<Rightarrow> nat \<Rightarrow> nat \<Rightarrow> nat \<Rightarrow> (nat \<Rightarrow> nat \<Rightarrow> real) \<Rightarrow> (nat \<Rightarrow> nat \<Rightarrow> real)" where
  "bwd_q_update a x start_m off_h off_z start_n dq =
     (\<lambda>i d. dq i d + (\<Sum>j<BLOCK_N a. bwd_q_ds a x start_m off_h off_z start_n i j
                                        * bwd_q_k a x off_h off_z start_n j d))"

definition bwd_q_loop ::
  "launch \<Rightarrow> bwd_in \<Rightarrow> nat \<Rightarrow> nat \<Rightarrow> nat \<Rightarrow> nat list \<Rightarrow> (nat \<Rightarrow> nat \<Rightarrow> real)" where
  "bwd_q_loop a x start_m off_h off_z blocks =
     foldl (\<lambda>dq start_n. bwd_q_update a x start_m off_h off_z start_n dq) (\<lambda>i d. 0) blocks"

definition bwd_q_dq :: "launch \<Rightarrow> bwd_in \<Rightarrow> nat \<Rightarrow> nat \<Rightarrow> nat \<Rightarrow> nat \<Rightarrow> nat \<Rightarrow> real" where
  "bwd_q_dq a x start_m off_h off_z i d =
     bwd_q_loop a x start_m off_h off_z (py_range 0 (bwd_q_hi a start_m) (BLOCK_N a)) i d
       * sm_scale a"

definition bwd_q_kernel ::
  "launch \<Rightarrow> bwd_in \<Rightarrow> tensor \<Rightarrow> nat \<Rightarrow> nat \<Rightarrow> nat \<Rightarrow> (int \<times> real) list" where
  "bwd_q_kernel a x DQ start_m off_h off_z =
     concat (map (\<lambda>i. map (\<lambda>d. (row_ptrs DQ off_h off_z (offs_m a start_m i) d,
                                 bwd_q_dq a x start_m off_h off_z i d))
                           [0..<BLOCK_DMODEL a])
                 (filter (bwd_q_mask_m a start_m) [0..<BLOCK_M a]))"


section \<open>The host functions\<close>

text \<open>
  \<^verbatim>\<open>FlashAttention.forward\<close>. What it does to the process is kept in a state: the
  current CUDA device, the tensors it allocates (by shape) and the kernels it launches (by
  name and grid). A failed \<^verbatim>\<open>assert\<close> returns \<open>Inl AssertionError\<close> together with the
  state at the moment it is raised. \<open>cap\<close> is \<^verbatim>\<open>torch.cuda.get_device_capability\<close>;
  \<^verbatim>\<open>num_stages\<close> and \<^verbatim>\<open>num_warps\<close> do not change what is computed and are left
  out.
\<close>

datatype error = AssertionError

record host_state =
  current_device :: nat
  allocated :: "nat list list"
  launched :: "(string \<times> nat \<times> nat \<times> nat) list"

text \<open>The choice of \<^verbatim>\<open>(BLOCK_M, BLOCK_N)\<close> in \<^verbatim>\<open>forward\<close>.\<close>

definition fwd_config :: "nat \<times> nat \<Rightarrow> bool \<Rightarrow> nat \<Rightarrow> nat \<Rightarrow> nat \<times> nat" where
  "fwd_config c causal Dk M =
     (if c = (8, 0) then
        (if \<not> causal then
           (if Dk \<le> 64 then (128, 64) else if M \<le> 1024 then (128, 32) else (128, 128))
         else
           (if Dk \<le> 64 then (128, 64) else if M \<le> 1024 then (128, 32) else (128, 128)))
      else
        (if \<not> causal then (if Dk \<le> 64 then (128, 64) else (128, 32))
         else (if Dk \<le> 64 then (64, 64) else (128, 32))))"

text \<open>\<^verbatim>\<open>torch.empty_like\<close> and \<^verbatim>\<open>torch.zeros_like\<close> of a dense tensor keep its
  shape and strides; the kernels only store to the new tensor.\<close>

definition empty_like :: "tensor \<Rightarrow> tensor" where
  "empty_like t = t\<lparr>data := (\<lambda>_. 0)\<rparr>"

record fwd_result =
  o_stores :: "(int \<times> xreal) list"
  l_stores :: "(int \<times> xreal) list"
  saved :: launch

definition fwd_launch :: "nat \<times> nat \<Rightarrow> tensor \<Rightarrow> tensor \<Rightarrow> bool \<Rightarrow> real option \<Rightarrow> launch" where
  "fwd_launch c q k causal scale =
     (let M = dim_n q; D = dim_k q; N = dim_n k;
          BLOCK_M = fst (fwd_config c causal (dim_k k) M);
          BLOCK_N = snd (fwd_config c causal (dim_k k) M)
      in \<lparr>sm_scale = (case scale of None \<Rightarrow> 1 / sqrt (real D) | Some s \<Rightarrow> s),
          nheads = dim_h q, N_CTX = M, P_SEQ = int N - int M,
          BLOCK_M = BLOCK_M, BLOCK_DMODEL = D, BLOCK_N = BLOCK_N, CAUSAL = causal,
          DIVISIBLE_M = (M mod BLOCK_M = 0), DIVISIBLE_N = (N mod BLOCK_N = 0)\<rparr>)"

definition forward ::
  "(nat \<Rightarrow> nat \<times> nat) \<Rightarrow> (int \<Rightarrow> real) \<Rightarrow> host_state \<Rightarrow> tensor \<Rightarrow> tensor \<Rightarrow> tensor \<Rightarrow> bool \<Rightarrow> real option
     \<Rightarrow> host_state \<times> (error + fwd_result)" where
  "forward cap junk st q k v causal scale =
     (let orginal_device_index = current_device st;
          st = st\<lparr>current_device := device q\<rparr>
      in if \<not> (dim_k q = dim_k k \<and> dim_k k = dim_k v) then (st, Inl AssertionError)
         else if dim_k k \<notin> {16, 32, 64, 128} then (st, Inl AssertionError)
         else
           let a = fwd_launch (cap (device q)) q k causal scale;
               grid = (cdiv (dim_n q) (BLOCK_M a), dim_h q, dim_z q);
               st = st\<lparr>allocated := allocated st
                          @ [[dim_z q, dim_h q, dim_n q, dim_k q], [dim_z q, dim_h q, dim_n q]]\<rparr>;
               st = st\<lparr>launched := launched st @ [(''_fwd_kernel'', grid)]\<rparr>;
               r = \<lparr>o_stores = launch_grid grid (fwd_kernel_O a q k v (empty_like q) junk),
                    l_stores = launch_grid grid (fwd_kernel_L a q k v junk),
                    saved = a\<rparr>;
               st = st\<lparr>current_device := orginal_device_index\<rparr>
           in (st, Inr r))"

text \<open>
  \<^verbatim>\<open>FlashAttention.backward\<close>, from the saved \<open>q, k, v, o, L\<close> and the launch of the
  forward pass (for \<^verbatim>\<open>ctx.sm_scale\<close> and \<^verbatim>\<open>ctx.causal\<close>): the three launches and the
  stores of each, by the tensor they go to. \<open>fresh\<close> is the content of the uninitialised
  \<^verbatim>\<open>delta\<close>, \<open>sched\<close> the order of the additions of \<^verbatim>\<open>tl.sum\<close> in the compiled
  preprocess kernel. The device switch is as in \<^verbatim>\<open>forward\<close>.
\<close>

definition bwd_config :: "nat \<times> nat \<Rightarrow> bool \<Rightarrow> nat \<Rightarrow> nat \<times> nat" where
  "bwd_config c causal D =
     (if c = (8, 0) then
        (if \<not> causal then (if D \<le> 64 then 128 else 64, 64) else (64, 64))
      else if c = (8, 6) then
        (if \<not> causal then (64, 64) else (if D \<le> 64 then (64, 64) else (32, 32)))
      else (32, 32))"

definition bwd_launch :: "nat \<times> nat \<Rightarrow> launch \<Rightarrow> tensor \<Rightarrow> tensor \<Rightarrow> launch" where
  "bwd_launch c ctx q k =
     (let M = dim_n q; D = dim_k q; N = dim_n k;
          BLOCK_M = fst (bwd_config c (CAUSAL ctx) D);
          BLOCK_N = snd (bwd_config c (CAUSAL ctx) D)
      in \<lparr>sm_scale = sm_scale ctx, nheads = dim_h q, N_CTX = M, P_SEQ = int N - int M,
          BLOCK_M = BLOCK_M, BLOCK_DMODEL = D, BLOCK_N = BLOCK_N, CAUSAL = CAUSAL ctx,
          DIVISIBLE_M = (M mod BLOCK_M = 0), DIVISIBLE_N = (N mod BLOCK_N = 0)\<rparr>)"

text \<open>The strides of \<^verbatim>\<open>delta = torch.empty_like(L)\<close>, a contiguous tensor of shape
  \<open>(B, H, M)\<close>.\<close>

definition delta_strides :: "tensor \<Rightarrow> int \<times> int \<times> int" where
  "delta_strides q = (int (dim_h q * dim_n q), int (dim_n q), 1)"

record bwd_result =
  delta_stores :: "(int \<times> xreal) list"
  dk_stores :: "(int \<times> real) list"
  dv_stores :: "(int \<times> real) list"
  dq_stores :: "(int \<times> real) list"

text \<open>The kernels for dK, dV and dQ are modelled over the reals: they read a finite
  \<^verbatim>\<open>delta\<close> as its value (and an infinity or NaN as \<open>0\<close>).\<close>

definition fin_val :: "xreal \<Rightarrow> real" where
  "fin_val x = (case x of Fin r \<Rightarrow> r | _ \<Rightarrow> 0)"

definition backward ::
  "(nat \<Rightarrow> nat \<times> nat) \<Rightarrow> schedule \<Rightarrow> (int \<Rightarrow> real) \<Rightarrow> (int \<Rightarrow> real) \<Rightarrow> launch \<Rightarrow> tensor \<Rightarrow> tensor
     \<Rightarrow> tensor \<Rightarrow> tensor \<Rightarrow> (int \<Rightarrow> real) \<Rightarrow> tensor \<Rightarrow> bwd_result" where
  "backward cap sched junk fresh ctx q k v out L do =
     (let a = bwd_launch (cap (device q)) ctx q k;
          grid = (cdiv (dim_n q) (BLOCK_M a), dim_h q, dim_z q);
          ds = launch_grid grid (bwd_preprocess sched a out do (delta_strides q) junk);
          delta = apply_stores (\<lambda>p. Fin (fresh p)) ds;
          x = \<lparr>Q_in = q, K_in = k, V_in = v, DO_in = do, L_in = L,
               D_in = (\<lambda>p. fin_val (delta p)), junk_in = junk\<rparr>;
          grid_kv = (cdiv (dim_n k) (BLOCK_N a), dim_h q, dim_z q);
          dks = launch_grid grid_kv (bwd_kv_kernel_dk a x (empty_like k));
          dvs = launch_grid grid_kv (bwd_kv_kernel_dv a x (empty_like v));
          dqs = launch_grid grid (bwd_q_kernel a x (empty_like q))
      in \<lparr>delta_stores = ds, dk_stores = dks, dv_stores = dvs, dq_stores = dqs\<rparr>)"


section \<open>Layouts and example inputs\<close>

text \<open>The two layouts of the tests: \<^verbatim>\<open>BHTD\<close>, a contiguous tensor of shape
  \<open>(B, H, T, D)\<close>, and \<^verbatim>\<open>BTHD\<close>, a contiguous \<open>(B, T, H, D)\<close> tensor after
  \<^verbatim>\<open>transpose(1, 2)\<close>.\<close>

definition BHTD :: "nat \<Rightarrow> nat \<Rightarrow> nat \<Rightarrow> nat \<Rightarrow> nat \<Rightarrow> (int \<Rightarrow> real) \<Rightarrow> tensor" where
  "BHTD dev B H T D buf =
     \<lparr>data = buf, stride_z = int (H * T * D), stride_h = int (T * D), stride_n = int D,
      stride_k = 1, dim_z = B, dim_h = H, dim_n = T, dim_k = D, device = dev\<rparr>"

definition BTHD :: "nat \<Rightarrow> nat \<Rightarrow> nat \<Rightarrow> nat \<Rightarrow> nat \<Rightarrow> (int \<Rightarrow> real) \<Rightarrow> tensor" where
  "BTHD dev B H T D buf =
     \<lparr>data = buf, stride_z = int (T * H * D), stride_h = int D, stride_n = int (H * D),
      stride_k = 1, dim_z = B, dim_h = H, dim_n = T, dim_k = D, device = dev\<rparr>"

definition zeros :: "int \<Rightarrow> real" where
  "zeros = (\<lambda>_. 0)"

text \<open>A buffer that is \<open>1\<close> at one offset and \<open>0\<close> elsewhere.\<close>

definition one_at :: "int \<Rightarrow> int \<Rightarrow> real" where
  "one_at k = (\<lambda>a. if a = k then 1 else 0)"

definition rtx3090 :: "nat \<Rightarrow> nat \<times> nat" where
  "rtx3090 = (\<lambda>_. (8, 6))"

definition host0 :: host_state where
  "host0 = \<lparr>current_device = 0, allocated = [], launched = []\<rparr>"

section \<open>Auxiliary notions\<close>

text \<open>A masked logit is finite or \<open>-\<infinity>\<close>; its weight is \<open>2\<close> to the scaled logit, or
  \<open>0\<close>. \<open>stream_inv\<close> is the invariant of the forward loop after the blocks \<open>ts\<close>, and
  \<open>n_tiles\<close> the number of iterations of \<^verbatim>\<open>range(0, hi, B)\<close>.\<close>

definition is_logit :: "xreal \<Rightarrow> bool" where
  "is_logit x = (case x of Fin r \<Rightarrow> True | NInf \<Rightarrow> True | _ \<Rightarrow> False)"

definition wt :: "real \<Rightarrow> xreal \<Rightarrow> real" where
  "wt c x = (case x of Fin r \<Rightarrow> exp2 (r * c) | _ \<Rightarrow> 0)"

definition stream_inv ::
  "real \<Rightarrow> nat \<Rightarrow> (nat \<Rightarrow> nat \<Rightarrow> xreal) \<Rightarrow> (nat \<Rightarrow> nat \<Rightarrow> nat \<Rightarrow> real) \<Rightarrow> nat list \<Rightarrow> row_state \<Rightarrow> bool" where
  "stream_inv c n S Vf ts st =
     (\<exists>m l A. st = (Fin m, Fin l, \<lambda>d. Fin (A d)) \<and>
        l * exp2 (m * c) = (\<Sum>t\<leftarrow>ts. \<Sum>j<n. wt c (S t j)) \<and>
        (\<forall>d. A d * exp2 (m * c) = (\<Sum>t\<leftarrow>ts. \<Sum>j<n. wt c (S t j) * Vf t j d)) \<and>
        (\<exists>t\<in>set ts. \<exists>j<n. S t j = Fin m) \<and>
        (\<forall>t\<in>set ts. \<forall>j<n. \<forall>x. S t j = Fin x \<longrightarrow> x \<le> m))"

definition n_tiles :: "int \<Rightarrow> nat \<Rightarrow> nat" where
  "n_tiles hi B = nat ((hi + int B - 1) div int B)"

text \<open>A launch as \<^verbatim>\<open>backward\<close> configures it off the A100 and RTX-3090 branches
  with \<open>D \<le> 64\<close>, for one head, and zero-filled inputs of \<open>M\<close> rows.\<close>

definition ex_launch :: "nat \<Rightarrow> int \<Rightarrow> bool \<Rightarrow> launch" where
  "ex_launch M P causal =
     \<lparr>sm_scale = 1 / 4, nheads = 1, N_CTX = M, P_SEQ = P, BLOCK_M = 64, BLOCK_DMODEL = 16,
      BLOCK_N = 64, CAUSAL = causal, DIVISIBLE_M = (M mod 64 = 0),
      DIVISIBLE_N = ((int M + P) mod 64 = 0)\<rparr>"

definition ex_in :: "nat \<Rightarrow> bwd_in" where
  "ex_in M =
     \<lparr>Q_in = BHTD 0 1 1 M 16 zeros, K_in = BHTD 0 1 1 M 16 zeros, V_in = BHTD 0 1 1 M 16 zeros,
      DO_in = BHTD 0 1 1 M 16 zeros, L_in = zeros, D_in = zeros, junk_in = zeros\<rparr>"

text \<open>The normalised probability the forward pass gives to lane \<open>j\<close> of the key block at
  \<open>start_n\<close>, for row lane \<open>i\<close>: \<open>exp (s * scale - m * scale) / l\<close> with the final \<open>m\<close> and
  \<open>l\<close> of the row.\<close>

definition fwd_p ::
  "launch \<Rightarrow> tensor \<Rightarrow> tensor \<Rightarrow> tensor \<Rightarrow> (int \<Rightarrow> real) \<Rightarrow> nat \<Rightarrow> nat \<Rightarrow> nat \<Rightarrow> nat \<Rightarrow> nat \<Rightarrow> nat
     \<Rightarrow> xreal" where
  "fwd_p a Q K V junk start_m off_h off_z start_n i j =
     (case fwd_loop a Q K V junk start_m off_h off_z i of
        (m_i, l_i, acc) \<Rightarrow>
          xmul (xexp2 (xsub (xmul (fwd_s a Q K V junk start_m off_h off_z start_n i j)
                                  (Fin (qk_scale a)))
                            (xmul m_i (Fin (qk_scale a)))))
               (xrecip l_i))"

text \<open>An input with K and V in different layouts: \<open>B = 1\<close>, \<open>H = 2\<close>, \<open>M = N = 2\<close>,
  \<open>D = 16\<close>, Q and K zero in the \<^verbatim>\<open>BHTD\<close> layout, V in the \<^verbatim>\<open>BTHD\<close> layout with
  \<open>V[0, 0, 1, 0] = 1\<close> (offset \<open>32\<close>) and zero elsewhere; no causal mask, default scale.\<close>

definition c1_q :: tensor where
  "c1_q = BHTD 0 1 2 2 16 zeros"

definition c1_k :: tensor where
  "c1_k = BHTD 0 1 2 2 16 zeros"

definition c1_v :: tensor where
  "c1_v = BTHD 0 1 2 2 16 (one_at 32)"

definition c1_launch :: launch where
  "c1_launch = fwd_launch (8, 6) c1_q c1_k False None"

text \<open>A launch as the host functions set it up: positive scale and block sizes, \<open>N \<ge> M\<close>,
  and the divisibility flags computed from \<open>M\<close> and \<open>N\<close>.\<close>

definition launch_ok :: "launch \<Rightarrow> bool" where
  "launch_ok a =
     (0 < sm_scale a \<and> 0 < BLOCK_M a \<and> 0 < BLOCK_N a \<and> 0 \<le> P_SEQ a \<and>
      DIVISIBLE_M a = (N_CTX a mod BLOCK_M a = 0) \<and>
      DIVISIBLE_N a = (n_keys a mod BLOCK_N a = 0))"

text \<open>Two causal inputs with \<open>B = 1\<close>, \<open>H = 2\<close>, \<open>M = N = 3\<close>, \<open>D = 16\<close>, K zero in the
  \<^verbatim>\<open>BTHD\<close> layout and V in the \<^verbatim>\<open>BHTD\<close> layout, that differ only in
  \<open>V[0, 0, 2, 0]\<close> (offset \<open>32\<close>): key \<open>2\<close> is masked for query row \<open>1\<close>.\<close>

definition c3_q :: tensor where
  "c3_q = BHTD 0 1 2 3 16 zeros"

definition c3_k :: tensor where
  "c3_k = BTHD 0 1 2 3 16 zeros"

definition c3_v :: tensor where
  "c3_v = BHTD 0 1 2 3 16 zeros"

definition c3_v' :: tensor where
  "c3_v' = BHTD 0 1 2 3 16 (one_at 32)"

definition c3_launch :: launch where
  "c3_launch = fwd_launch (8, 6) c3_q c3_k True None"

text \<open>An input with \<open>B = 1\<close>, \<open>H = 2\<close>, \<open>M = N = 2\<close>, \<open>D = 16\<close>: \<open>Q[0, 0, 0, 0] = 1\<close>, K in
  the \<^verbatim>\<open>BTHD\<close> layout with \<open>K[0, 0, 1, 0] = 1\<close> (offset \<open>32\<close>), V zero in the
  \<^verbatim>\<open>BHTD\<close> layout; the launches of the forward and of the backward pass for it, and
  the inputs of the backward kernels with the \<open>L\<close> the forward pass stores for every row
  of head \<open>0\<close>, \<open>ln 2\<close>.\<close>

definition c2_q :: tensor where
  "c2_q = BHTD 0 1 2 2 16 (one_at 0)"

definition c2_k :: tensor where
  "c2_k = BTHD 0 1 2 2 16 (one_at 32)"

definition c2_v :: tensor where
  "c2_v = BHTD 0 1 2 2 16 zeros"

definition c2_fwd :: launch where
  "c2_fwd = fwd_launch (8, 6) c2_q c2_k False None"

definition c2_bwd :: launch where
  "c2_bwd = bwd_launch (8, 6) c2_fwd c2_q c2_k"

definition c2_in :: bwd_in where
  "c2_in = \<lparr>Q_in = c2_q, K_in = c2_k, V_in = c2_v, DO_in = c2_v, L_in = (\<lambda>_. ln 2),
            D_in = zeros, junk_in = zeros\<rparr>"

text \<open>The same input with K such that also \<open>K[0, 1, 0, 0] = 2\<close> (offset \<open>16\<close>), and the
  launch of the forward pass for it.\<close>

definition c8_k :: tensor where
  "c8_k = BTHD 0 1 2 2 16 (\<lambda>p. if p = 32 then 1 else if p = 16 then 2 else 0)"

definition c8_fwd :: launch where
  "c8_fwd = fwd_launch (8, 6) c2_q c8_k False None"

definition ex_t :: "nat \<Rightarrow> tensor" where
  "ex_t M = BHTD 0 1 1 M 16 zeros"

text \<open>
  The log-normaliser of row \<open>m\<close> as the specification gives it, over the logical
  elements of Q and K: \<open>running_max * scale + ln running_sum\<close> with the maximum of the
  logits of the unmasked keys and the sum of \<open>exp ((logit - running_max) * scale)\<close> over
  them.
\<close>

definition log_normalizer_ref :: "launch \<Rightarrow> tensor \<Rightarrow> tensor \<Rightarrow> nat \<Rightarrow> nat \<Rightarrow> nat \<Rightarrow> real" where
  "log_normalizer_ref a Q K z h m =
     (let lg = (\<lambda>n. qk_dot (BLOCK_DMODEL a) (elem Q z h m) (elem K z h n));
          running_max = Max (lg ` {n \<in> {..<n_keys a}. unmasked a m n});
          running_sum = (\<Sum>n<n_keys a. if unmasked a m n
                            then exp ((lg n - running_max) * sm_scale a) else 0)
      in running_max * sm_scale a + ln running_sum)"

text \<open>
  Every element of a tensor \<open>T\<close> of shape \<open>(B, H, M, D)\<close> has an offset that the kernel
  can compute in int32: strides are not negative and the last element's offset is below
  \<open>2 ^ 31\<close>.
\<close>

definition addressable :: "tensor \<Rightarrow> nat \<Rightarrow> nat \<Rightarrow> nat \<Rightarrow> nat \<Rightarrow> bool" where
  "addressable T B H M D =
     (0 \<le> stride_z T \<and> 0 \<le> stride_h T \<and> 0 \<le> stride_n T \<and> 0 \<le> stride_k T \<and>
      int (B - 1) * stride_z T + int (H - 1) * stride_h T + int (M - 1) * stride_n T
        + int (D - 1) * stride_k T < 2 ^ 31)"

text \<open>
  \<open>Delta[z, h, m]\<close> as the specification gives it, over the logical elements of O and
  dO: the sum of the products in the reals, and accumulated in float32 in the order
  \<open>sched\<close>.
\<close>

definition delta_ref :: "tensor \<Rightarrow> tensor \<Rightarrow> nat \<Rightarrow> nat \<Rightarrow> nat \<Rightarrow> nat \<Rightarrow> real" where
  "delta_ref Out DO D z h m = (\<Sum>d<D. elem Out z h m d * elem DO z h m d)"

definition delta_f32 :: "schedule \<Rightarrow> tensor \<Rightarrow> tensor \<Rightarrow> nat \<Rightarrow> nat \<Rightarrow> nat \<Rightarrow> xreal" where
  "delta_f32 sched Out DO z h m =
     tl_sum_f32 sched (\<lambda>d. f32_mul (f32 (elem Out z h m d)) (f32 (elem DO z h m d)))"

text \<open>The stores of a list that go to the address \<open>p\<close>, in their order.\<close>

definition stores_to :: "int \<Rightarrow> (int \<times> 'v) list \<Rightarrow> (int \<times> 'v) list" where
  "stores_to p sts = filter (\<lambda>s. fst s = p) sts"

text \<open>
  An input of \<open>2 ^ 28 + 1\<close> rows with \<open>B = H = 1\<close> and \<open>D = 16\<close>, contiguous: the last
  row starts at offset \<open>2 ^ 32\<close>. O and dO are \<open>1\<close> at \<open>[0, 0, 2 ^ 28, 0]\<close> and \<open>0\<close>
  elsewhere.
\<close>

definition big_q :: tensor where
  "big_q = BHTD 0 1 1 268435457 16 zeros"

definition big_o :: tensor where
  "big_o = BHTD 0 1 1 268435457 16 (one_at 4294967296)"

text \<open>
  One row of \<open>D = 16\<close> half-precision numbers for O and for dO: fifteen products
  \<open>2047 * 2047\<close> and one product \<open>1 * 2\<close>, of sum \<open>62853137\<close>.
\<close>

definition row_o :: tensor where
  "row_o = BHTD 0 1 1 1 16 (\<lambda>p. if p = 15 then 1 else 2047)"

definition row_do :: tensor where
  "row_do = BHTD 0 1 1 1 16 (\<lambda>p. if p = 15 then 2 else 2047)"

section \<open>The streaming softmax of the forward kernel\<close>

lemma exp2_add: "exp2 (x + y) = exp2 x * exp2 y"
  by (simp add: exp2_def powr_add)

lemma exp2_pos: "0 < exp2 x"
  by (simp add: exp2_def)

lemma exp2_log2e: "exp2 (x * log2e) = exp x"
  by (simp add: exp2_def log2e_def powr_def)

lemma tl_sum_Fin: "tl_sum n (\<lambda>j. Fin (g j)) = Fin (\<Sum>j<n. g j)"
  by (induction n) simp_all

lemma wt_nonneg: "0 \<le> wt c x"
  by (cases x) (simp_all add: wt_def exp2_def)

lemma xsub_Fin: "xsub (Fin a) (Fin b) = Fin (a - b)"
  by (simp add: xsub_def)

lemma xsub_NInf_Fin: "xsub NInf (Fin b) = NInf"
  by (simp add: xsub_def)

lemma xmul_NInf_pos: "0 < c \<Longrightarrow> xmul NInf (Fin c) = NInf"
  by simp

lemma p_form:
  assumes "is_logit x" "0 < c"
  shows "xexp2 (xsub (xmul x (Fin c)) (Fin (m * c))) = Fin (wt c x / exp2 (m * c))"
proof (cases x)
  case (Fin r)
  have "exp2 (r * c - m * c) * exp2 (m * c) = exp2 (r * c)"
    by (simp add: exp2_add [symmetric])
  then have "exp2 (r * c - m * c) = exp2 (r * c) / exp2 (m * c)"
    using exp2_pos [of "m * c"] by (simp add: field_simps)
  with Fin show ?thesis by (simp add: xsub_def wt_def)
next
  case NInf
  with assms show ?thesis by (simp add: xsub_def wt_def)
qed (use assms in \<open>simp_all add: is_logit_def\<close>)

lemma tl_max_logit:
  assumes "\<forall>j<n. is_logit (s j)"
  shows "(tl_max n s = NInf \<and> (\<forall>j<n. s j = NInf))
       \<or> (\<exists>r. tl_max n s = Fin r \<and> (\<exists>j<n. s j = Fin r) \<and> (\<forall>j<n. \<forall>x. s j = Fin x \<longrightarrow> x \<le> r))"
  using assms
proof (induction n)
  case 0
  then show ?case by simp
next
  case (Suc n)
  then have IH: "(tl_max n s = NInf \<and> (\<forall>j<n. s j = NInf))
       \<or> (\<exists>r. tl_max n s = Fin r \<and> (\<exists>j<n. s j = Fin r) \<and> (\<forall>j<n. \<forall>x. s j = Fin x \<longrightarrow> x \<le> r))"
    by simp
  from Suc.prems have ln: "is_logit (s n)" by simp
  show ?case
  proof (cases "s n")
    case (Fin y)
    from IH show ?thesis
    proof
      assume "tl_max n s = NInf \<and> (\<forall>j<n. s j = NInf)"
      then have "tl_max (Suc n) s = Fin y" "\<forall>j<Suc n. \<forall>x. s j = Fin x \<longrightarrow> x \<le> y"
        using Fin by (auto simp: less_Suc_eq)
      then show ?thesis using Fin by blast
    next
      assume "\<exists>r. tl_max n s = Fin r \<and> (\<exists>j<n. s j = Fin r) \<and> (\<forall>j<n. \<forall>x. s j = Fin x \<longrightarrow> x \<le> r)"
      then obtain r j0 where r: "tl_max n s = Fin r" "j0 < n" "s j0 = Fin r"
        "\<forall>j<n. \<forall>x. s j = Fin x \<longrightarrow> x \<le> r" by blast
      have m: "tl_max (Suc n) s = Fin (max r y)" using r Fin by simp
      have ub: "\<forall>j<Suc n. \<forall>x. s j = Fin x \<longrightarrow> x \<le> max r y"
        using r(4) Fin by (auto simp: less_Suc_eq max_def)
      have "\<exists>j<Suc n. s j = Fin (max r y)"
      proof (cases "y \<le> r")
        case True
        then show ?thesis using r(2,3) by (auto simp: max_def intro!: exI [of _ j0])
      next
        case False
        then show ?thesis using Fin by (auto simp: max_def intro!: exI [of _ n])
      qed
      with m ub show ?thesis by blast
    qed
  next
    case NInf
    from IH show ?thesis
    proof
      assume "tl_max n s = NInf \<and> (\<forall>j<n. s j = NInf)"
      then show ?thesis using NInf by (auto simp: less_Suc_eq)
    next
      assume "\<exists>r. tl_max n s = Fin r \<and> (\<exists>j<n. s j = Fin r) \<and> (\<forall>j<n. \<forall>x. s j = Fin x \<longrightarrow> x \<le> r)"
      then obtain r j0 where r: "tl_max n s = Fin r" "j0 < n" "s j0 = Fin r"
        "\<forall>j<n. \<forall>x. s j = Fin x \<longrightarrow> x \<le> r" by blast
      have "tl_max (Suc n) s = Fin r" using r NInf by simp
      moreover have "\<exists>j<Suc n. s j = Fin r" using r(2,3) by (auto intro!: exI [of _ j0])
      moreover have "\<forall>j<Suc n. \<forall>x. s j = Fin x \<longrightarrow> x \<le> r" using r(4) NInf by (auto simp: less_Suc_eq)
      ultimately show ?thesis by blast
    qed
  qed (use ln in \<open>simp_all add: is_logit_def\<close>)
qed

lemma tl_sum_cong: "(\<And>j. j < n \<Longrightarrow> f j = g j) \<Longrightarrow> tl_sum n f = tl_sum n g"
  by (induction n) simp_all

lemma tl_sum_p:
  assumes "\<forall>j<n. is_logit (s j)" "0 < c"
  shows "tl_sum n (\<lambda>j. xexp2 (xsub (xmul (s j) (Fin c)) (Fin (m * c))))
       = Fin (\<Sum>j<n. wt c (s j) / exp2 (m * c))"
proof -
  have "tl_sum n (\<lambda>j. xexp2 (xsub (xmul (s j) (Fin c)) (Fin (m * c))))
      = tl_sum n (\<lambda>j. Fin (wt c (s j) / exp2 (m * c)))"
    using assms by (intro tl_sum_cong) (simp add: p_form)
  then show ?thesis by (simp add: tl_sum_Fin)
qed

lemma tl_sum_pv:
  assumes "\<forall>j<n. is_logit (s j)" "0 < c"
  shows "tl_sum n (\<lambda>j. xmul (xexp2 (xsub (xmul (s j) (Fin c)) (Fin (m * c)))) (Fin (v j d)))
       = Fin (\<Sum>j<n. wt c (s j) / exp2 (m * c) * v j d)"
proof -
  have "tl_sum n (\<lambda>j. xmul (xexp2 (xsub (xmul (s j) (Fin c)) (Fin (m * c)))) (Fin (v j d)))
      = tl_sum n (\<lambda>j. Fin (wt c (s j) / exp2 (m * c) * v j d))"
    using assms by (intro tl_sum_cong) (simp add: p_form)
  then show ?thesis by (simp add: tl_sum_Fin)
qed

text \<open>The update from a state whose maximum is finite.\<close>

lemma fwd_update_Fin:
  assumes c: "0 < qk_scale a" and lg: "\<forall>j<BLOCK_N a. is_logit (s j)"
    and mx: "xmax (Fin m) (tl_max (BLOCK_N a) s) = Fin m'"
  shows "fwd_update a s v (Fin m, Fin l, \<lambda>d. Fin (A d)) =
      (Fin m',
       Fin (l * exp2 ((m - m') * qk_scale a) + (\<Sum>j<BLOCK_N a. wt (qk_scale a) (s j) / exp2 (m' * qk_scale a))),
       \<lambda>d. Fin (A d * exp2 ((m - m') * qk_scale a)
                + (\<Sum>j<BLOCK_N a. wt (qk_scale a) (s j) / exp2 (m' * qk_scale a) * v j d)))"
  using mx by (simp add: fwd_update_def Let_def tl_sum_p [OF lg c] tl_sum_pv [OF lg c] xsub_Fin)

text \<open>The first update, from the initial state, when some lane is not masked.\<close>

lemma fwd_update_init:
  assumes c: "0 < qk_scale a" and lg: "\<forall>j<BLOCK_N a. is_logit (s j)"
    and mx: "tl_max (BLOCK_N a) s = Fin m'"
  shows "fwd_update a s v fwd_init =
      (Fin m',
       Fin (\<Sum>j<BLOCK_N a. wt (qk_scale a) (s j) / exp2 (m' * qk_scale a)),
       \<lambda>d. Fin (\<Sum>j<BLOCK_N a. wt (qk_scale a) (s j) / exp2 (m' * qk_scale a) * v j d))"
  using mx c by (simp add: fwd_update_def fwd_init_def Let_def tl_sum_p [OF lg c] tl_sum_pv [OF lg c]
      xsub_NInf_Fin)

lemma scale_sum:
  fixes e :: real
  assumes "0 < e"
  shows "(\<Sum>j<n. f j / e) * e = (\<Sum>j<n. f j)" "(\<Sum>j<n. f j / e * g j) * e = (\<Sum>j<n. f j * g j)"
  using assms by (simp_all add: sum_distrib_right)

lemma stream_inv_first:
  assumes c: "0 < qk_scale a" and lg: "\<forall>j<BLOCK_N a. is_logit (S t j)"
    and ex: "\<exists>j<BLOCK_N a. S t j \<noteq> NInf"
  shows "stream_inv (qk_scale a) (BLOCK_N a) S Vf [t] (fwd_update a (S t) (Vf t) fwd_init)"
proof -
  from tl_max_logit [OF lg] ex obtain r where r: "tl_max (BLOCK_N a) (S t) = Fin r"
    "\<exists>j<BLOCK_N a. S t j = Fin r" "\<forall>j<BLOCK_N a. \<forall>x. S t j = Fin x \<longrightarrow> x \<le> r"
    by blast
  have pos: "0 < exp2 (r * qk_scale a)" by (rule exp2_pos)
  show ?thesis
    unfolding stream_inv_def fwd_update_init [OF c lg r(1)]
  proof (intro exI conjI)
    show "(Fin r, Fin (\<Sum>j<BLOCK_N a. wt (qk_scale a) (S t j) / exp2 (r * qk_scale a)),
       \<lambda>d. Fin (\<Sum>j<BLOCK_N a. wt (qk_scale a) (S t j) / exp2 (r * qk_scale a) * Vf t j d))
      = (Fin r, Fin (\<Sum>j<BLOCK_N a. wt (qk_scale a) (S t j) / exp2 (r * qk_scale a)),
       \<lambda>d. Fin (\<Sum>j<BLOCK_N a. wt (qk_scale a) (S t j) / exp2 (r * qk_scale a) * Vf t j d))" ..
    show "(\<Sum>j<BLOCK_N a. wt (qk_scale a) (S t j) / exp2 (r * qk_scale a)) * exp2 (r * qk_scale a)
      = (\<Sum>t\<leftarrow>[t]. \<Sum>j<BLOCK_N a. wt (qk_scale a) (S t j))"
      by (simp only: scale_sum(1) [OF pos]) simp
    show "\<forall>d. (\<Sum>j<BLOCK_N a. wt (qk_scale a) (S t j) / exp2 (r * qk_scale a) * Vf t j d) * exp2 (r * qk_scale a)
      = (\<Sum>t\<leftarrow>[t]. \<Sum>j<BLOCK_N a. wt (qk_scale a) (S t j) * Vf t j d)"
      by (simp only: scale_sum(2) [OF pos]) simp
    show "\<exists>t\<in>set [t]. \<exists>j<BLOCK_N a. S t j = Fin r" using r(2) by simp
    show "\<forall>t\<in>set [t]. \<forall>j<BLOCK_N a. \<forall>x. S t j = Fin x \<longrightarrow> x \<le> r" using r(3) by simp
  qed
qed

lemma stream_inv_next:
  assumes c: "0 < qk_scale a" and lg: "\<forall>j<BLOCK_N a. is_logit (S t j)"
    and inv: "stream_inv (qk_scale a) (BLOCK_N a) S Vf ts st"
  shows "stream_inv (qk_scale a) (BLOCK_N a) S Vf (ts @ [t]) (fwd_update a (S t) (Vf t) st)"
proof -
  let ?c = "qk_scale a" and ?n = "BLOCK_N a"
  from inv obtain m l A where st: "st = (Fin m, Fin l, \<lambda>d. Fin (A d))"
    and l: "l * exp2 (m * ?c) = (\<Sum>t\<leftarrow>ts. \<Sum>j<?n. wt ?c (S t j))"
    and A: "\<And>d. A d * exp2 (m * ?c) = (\<Sum>t\<leftarrow>ts. \<Sum>j<?n. wt ?c (S t j) * Vf t j d)"
    and at: "\<exists>t\<in>set ts. \<exists>j<?n. S t j = Fin m"
    and ub: "\<forall>t\<in>set ts. \<forall>j<?n. \<forall>x. S t j = Fin x \<longrightarrow> x \<le> m"
    unfolding stream_inv_def by blast
  from tl_max_logit [OF lg]
  obtain m' where m': "xmax (Fin m) (tl_max ?n (S t)) = Fin m'" "m \<le> m'"
    "m' = m \<or> (\<exists>j<?n. S t j = Fin m')" "\<forall>j<?n. \<forall>x. S t j = Fin x \<longrightarrow> x \<le> m'"
  proof
    assume "tl_max ?n (S t) = NInf \<and> (\<forall>j<?n. S t j = NInf)"
    then show ?thesis by (intro that [of m]) auto
  next
    assume "\<exists>r. tl_max ?n (S t) = Fin r \<and> (\<exists>j<?n. S t j = Fin r) \<and> (\<forall>j<?n. \<forall>x. S t j = Fin x \<longrightarrow> x \<le> r)"
    then obtain r where r: "tl_max ?n (S t) = Fin r" "\<exists>j<?n. S t j = Fin r"
      "\<forall>j<?n. \<forall>x. S t j = Fin x \<longrightarrow> x \<le> r" by blast
    show ?thesis
    proof (rule that [of "max m r"])
      show "xmax (Fin m) (tl_max ?n (S t)) = Fin (max m r)" using r(1) by simp
      show "m \<le> max m r" by simp
      show "max m r = m \<or> (\<exists>j<?n. S t j = Fin (max m r))" using r(2) by (auto simp: max_def)
      show "\<forall>j<?n. \<forall>x. S t j = Fin x \<longrightarrow> x \<le> max m r" using r(3) by (auto simp: max_def)
    qed
  qed
  have e: "exp2 ((m - m') * ?c) * exp2 (m' * ?c) = exp2 (m * ?c)"
    by (simp add: exp2_add [symmetric] algebra_simps)
  have pos: "0 < exp2 (m' * ?c)" by (rule exp2_pos)
  have L: "(l * exp2 ((m - m') * ?c) + (\<Sum>j<?n. wt ?c (S t j) / exp2 (m' * ?c))) * exp2 (m' * ?c)
      = (\<Sum>t\<leftarrow>ts @ [t]. \<Sum>j<?n. wt ?c (S t j))"
  proof -
    have "(l * exp2 ((m - m') * ?c) + (\<Sum>j<?n. wt ?c (S t j) / exp2 (m' * ?c))) * exp2 (m' * ?c)
        = l * (exp2 ((m - m') * ?c) * exp2 (m' * ?c)) + (\<Sum>j<?n. wt ?c (S t j) / exp2 (m' * ?c)) * exp2 (m' * ?c)"
      by (simp add: algebra_simps)
    also have "\<dots> = l * exp2 (m * ?c) + (\<Sum>j<?n. wt ?c (S t j))"
      by (simp only: e scale_sum(1) [OF pos])
    finally show ?thesis by (simp add: l)
  qed
  have AA: "(A d * exp2 ((m - m') * ?c) + (\<Sum>j<?n. wt ?c (S t j) / exp2 (m' * ?c) * Vf t j d)) * exp2 (m' * ?c)
      = (\<Sum>t\<leftarrow>ts @ [t]. \<Sum>j<?n. wt ?c (S t j) * Vf t j d)" for d
  proof -
    have "(A d * exp2 ((m - m') * ?c) + (\<Sum>j<?n. wt ?c (S t j) / exp2 (m' * ?c) * Vf t j d)) * exp2 (m' * ?c)
        = A d * (exp2 ((m - m') * ?c) * exp2 (m' * ?c))
          + (\<Sum>j<?n. wt ?c (S t j) / exp2 (m' * ?c) * Vf t j d) * exp2 (m' * ?c)"
      by (simp add: algebra_simps)
    also have "\<dots> = A d * exp2 (m * ?c) + (\<Sum>j<?n. wt ?c (S t j) * Vf t j d)"
      by (simp only: e scale_sum(2) [OF pos])
    finally show ?thesis by (simp add: A)
  qed
  have AT: "\<exists>t'\<in>set (ts @ [t]). \<exists>j<?n. S t' j = Fin m'"
    using m'(3) at by auto
  have UB: "\<forall>t'\<in>set (ts @ [t]). \<forall>j<?n. \<forall>x. S t' j = Fin x \<longrightarrow> x \<le> m'"
    using m'(2,4) ub by fastforce
  show ?thesis
    unfolding stream_inv_def st fwd_update_Fin [OF c lg m'(1)]
  proof (intro exI conjI)
    show "(Fin m', Fin (l * exp2 ((m - m') * ?c) + (\<Sum>j<?n. wt ?c (S t j) / exp2 (m' * ?c))),
        \<lambda>d. Fin (A d * exp2 ((m - m') * ?c) + (\<Sum>j<?n. wt ?c (S t j) / exp2 (m' * ?c) * Vf t j d)))
      = (Fin m', Fin (l * exp2 ((m - m') * ?c) + (\<Sum>j<?n. wt ?c (S t j) / exp2 (m' * ?c))),
        \<lambda>d. Fin (A d * exp2 ((m - m') * ?c) + (\<Sum>j<?n. wt ?c (S t j) / exp2 (m' * ?c) * Vf t j d)))" ..
  qed (use L AA AT UB in blast)+
qed

lemma stream_inv_loop:
  assumes c: "0 < qk_scale a" and lg: "\<forall>t\<in>set (t0 # ts). \<forall>j<BLOCK_N a. is_logit (S t j)"
    and ex: "\<exists>j<BLOCK_N a. S t0 j \<noteq> NInf"
  shows "stream_inv (qk_scale a) (BLOCK_N a) S Vf (t0 # ts)
           (foldl (\<lambda>st t. fwd_update a (S t) (Vf t) st) fwd_init (t0 # ts))"
  using lg
proof (induction ts rule: rev_induct)
  case Nil
  then have "\<forall>j<BLOCK_N a. is_logit (S t0 j)" by simp
  from stream_inv_first [of a S t0 Vf, OF c this ex] show ?case by simp
next
  case (snoc t ts)
  then have "stream_inv (qk_scale a) (BLOCK_N a) S Vf (t0 # ts)
           (foldl (\<lambda>st t. fwd_update a (S t) (Vf t) st) fwd_init (t0 # ts))" by simp
  moreover from snoc.prems have "\<forall>j<BLOCK_N a. is_logit (S t j)" by simp
  ultimately show ?case using stream_inv_next [of a S t Vf "t0 # ts", OF c] by simp
qed

lemma log2e_pos: "0 < log2e"
  by (simp add: log2e_def)

lemma qk_scale_pos: "0 < sm_scale a \<Longrightarrow> 0 < qk_scale a"
  by (simp add: qk_scale_def log2e_pos)

lemma exp2_qk_scale: "exp2 (r * qk_scale a) = exp (r * sm_scale a)"
  using exp2_log2e [of "r * sm_scale a"] by (simp add: qk_scale_def mult.assoc)

lemma sum_tiles:
  fixes f :: "nat \<Rightarrow> real"
  shows "(\<Sum>k\<leftarrow>[0..<T]. \<Sum>j<B. f (k * B + j)) = (\<Sum>n<T * B. f n)"
proof (induction T)
  case 0
  then show ?case by simp
next
  case (Suc T)
  have "{..<Suc T * B} = {..<T * B} \<union> {T * B..<T * B + B}" by auto
  moreover have "{..<T * B} \<inter> {T * B..<T * B + B} = {}" by auto
  ultimately have "(\<Sum>n<Suc T * B. f n) = (\<Sum>n<T * B. f n) + (\<Sum>n = T * B..<T * B + B. f n)"
    by (simp add: sum.union_disjoint)
  also have "(\<Sum>n = T * B..<T * B + B. f n) = (\<Sum>j<B. f (T * B + j))"
    using sum.shift_bounds_nat_ivl [of f 0 "T * B" B] by (simp add: lessThan_atLeast0 add.commute)
  finally show ?case using Suc by simp
qed

lemma sum_support:
  fixes f :: "nat \<Rightarrow> real"
  assumes "\<And>n. f n \<noteq> 0 \<Longrightarrow> n < A \<and> n < B"
  shows "(\<Sum>n<A. f n) = (\<Sum>n<B. f n)"
proof -
  have z: "f n = 0" if "min A B \<le> n" for n
    using assms [of n] that by (cases "f n = 0") auto
  have "(\<Sum>n<A. f n) = (\<Sum>n<min A B. f n)"
    by (intro sum.mono_neutral_right) (auto simp: z)
  moreover have "(\<Sum>n<B. f n) = (\<Sum>n<min A B. f n)"
    by (intro sum.mono_neutral_right) (auto simp: z)
  ultimately show ?thesis by simp
qed

lemma py_range_0: "py_range 0 hi B = map (\<lambda>t. t * B) [0..<n_tiles hi B]"
  by (simp add: py_range_def n_tiles_def)

lemma tiles_cover:
  assumes "0 < B"
  shows "hi \<le> int (n_tiles hi B * B)"
proof (cases "0 < hi")
  case True
  let ?x = "hi + int B - 1"
  have "0 \<le> ?x div int B" using True assms by (simp add: pos_imp_zdiv_nonneg_iff)
  then have "int (n_tiles hi B * B) = ?x div int B * int B" by (simp add: n_tiles_def)
  also have "\<dots> = ?x - ?x mod int B" by (simp add: minus_mod_eq_div_mult)
  finally have "int (n_tiles hi B * B) = ?x - ?x mod int B" .
  moreover have "?x mod int B < int B" using assms by simp
  ultimately show ?thesis by linarith
next
  case False
  moreover have "0 \<le> int (n_tiles hi B * B)" by (rule of_nat_0_le_iff)
  ultimately show ?thesis by linarith
qed

lemma tiles_exact:
  assumes "0 < B" "B dvd N"
  shows "n_tiles (int N) B * B = N"
proof -
  from assms obtain k where k: "N = k * B" by (auto simp: dvd_def mult.commute)
  have "(int N + int B - 1) div int B = (int B - 1 + int k * int B) div int B"
    by (simp add: k algebra_simps)
  also have "\<dots> = int k + (int B - 1) div int B"
    using assms(1) by (intro div_mult_self1) simp
  also have "(int B - 1) div int B = 0"
    using assms(1) by (intro div_pos_pos_trivial) auto
  finally have "(int N + int B - 1) div int B = int k" by simp
  then have "n_tiles (int N) B = k" by (simp add: n_tiles_def)
  then show ?thesis by (simp add: k)
qed

lemma tiles_step:
  assumes "k < n_tiles hi B"
  shows "int (k * B) + int B \<le> int (n_tiles hi B * B)"
proof -
  from assms have "Suc k \<le> n_tiles hi B" by simp
  then have "Suc k * B \<le> n_tiles hi B * B" by (rule mult_le_mono1)
  then have "int (Suc k * B) \<le> int (n_tiles hi B * B)" by (simp only: of_nat_le_iff)
  moreover have "int (Suc k * B) = int (k * B) + int B" by simp
  ultimately show ?thesis by simp
qed

text \<open>The masked logit in closed form.\<close>

lemma fwd_s_eq:
  "fwd_s a Q K V junk start_m off_h off_z start_n i j =
     (if fwd_mask_n a start_n j \<and> (CAUSAL a \<longrightarrow> int (start_n + j) \<le> P_SEQ a + int (offs_m a start_m i))
      then Fin (\<Sum>d<BLOCK_DMODEL a.
                fwd_q a Q junk start_m off_h off_z i d * fwd_k a K V junk off_h off_z start_n j d)
      else NInf)"
  by (simp add: fwd_s_def Let_def)

lemma fwd_s_logit: "is_logit (fwd_s a Q K V junk start_m off_h off_z start_n i j)"
  by (simp add: fwd_s_eq is_logit_def)

lemma fwd_mask_m_row: "offs_m a start_m i < N_CTX a \<Longrightarrow> fwd_mask_m a start_m i"
  by (simp add: fwd_mask_m_def)

lemma fwd_q_row:
  "offs_m a start_m i < N_CTX a \<Longrightarrow>
   fwd_q a Q junk start_m off_h off_z i d = elem Q off_z off_h (offs_m a start_m i) d"
  by (simp add: fwd_q_def fwd_mask_m_row tl_load_def fwd_q_ptrs_def elem_def algebra_simps)

text \<open>Within the blocks the loop visits, the lanes the kernel leaves unmasked for a row
  in range are the unmasked keys.\<close>

lemma unmasked_int:
  assumes "0 \<le> P_SEQ a"
  shows "unmasked a m n = (int n < int (N_CTX a) + P_SEQ a \<and> (CAUSAL a \<longrightarrow> int n \<le> P_SEQ a + int m))"
proof -
  have "int (n_keys a) = int (N_CTX a) + P_SEQ a" using assms by (simp add: n_keys_def)
  then have "(n < n_keys a) = (int n < int (N_CTX a) + P_SEQ a)" by linarith
  then show ?thesis by (simp add: unmasked_def)
qed

lemma kernel_unmasked_iff:
  assumes B: "0 < BLOCK_N a" and P: "0 \<le> P_SEQ a" and row: "offs_m a start_m i < N_CTX a"
    and dv: "DIVISIBLE_N a \<longrightarrow> BLOCK_N a dvd n_keys a"
    and k: "k < n_tiles (fwd_hi a start_m) (BLOCK_N a)" and j: "j < BLOCK_N a"
  shows "(fwd_mask_n a (k * BLOCK_N a) j \<and>
          (CAUSAL a \<longrightarrow> int (k * BLOCK_N a + j) \<le> P_SEQ a + int (offs_m a start_m i)))
       = unmasked a (offs_m a start_m i) (k * BLOCK_N a + j)"
proof -
  let ?B = "BLOCK_N a"
  define n where "n = k * ?B + j"
  define N where "N = int (N_CTX a) + P_SEQ a"
  define s where "s = int (k * ?B)"
  define r where "r = P_SEQ a + int (offs_m a start_m i)"
  have Nk: "int (n_keys a) = N" using P by (simp add: n_keys_def N_def)
  have n: "int n = s + int j" by (simp add: n_def s_def)
  have jB: "int j < int ?B" using j by simp
  have rN: "r < N" using row by (simp add: r_def N_def)
  have le: "s + int ?B \<le> int (n_tiles (fwd_hi a start_m) ?B * ?B)"
    unfolding s_def using k by (rule tiles_step)
  have mask: "fwd_mask_n a (k * ?B) j =
      (if \<not> DIVISIBLE_N a then if s + int ?B > N then int n < N else True else True)"
    by (simp add: fwd_mask_n_def s_def N_def n_def)
  have um: "unmasked a (offs_m a start_m i) n = (int n < N \<and> (CAUSAL a \<longrightarrow> int n \<le> r))"
    by (simp add: unmasked_int [OF P] N_def r_def)
  have "(fwd_mask_n a (k * ?B) j \<and> (CAUSAL a \<longrightarrow> int n \<le> r))
      = (int n < N \<and> (CAUSAL a \<longrightarrow> int n \<le> r))"
  proof (cases "CAUSAL a")
    case True
    show ?thesis unfolding mask using True rN by auto
  next
    case False
    then have hi: "fwd_hi a start_m = N" by (simp add: fwd_hi_def N_def)
    show ?thesis
    proof (cases "DIVISIBLE_N a")
      case True
      with dv B have "n_tiles (int (n_keys a)) ?B * ?B = n_keys a"
        by (intro tiles_exact) auto
      then have "int (n_tiles N ?B * ?B) = N" by (simp only: Nk)
      with le hi have "s + int ?B \<le> N" by (simp only:)
      with jB n have "int n < N" by linarith
      then show ?thesis unfolding mask using True False by simp
    next
      case F: False
      have "\<not> s + int ?B > N \<Longrightarrow> int n < N" using jB n by linarith
      then show ?thesis unfolding mask using F False by auto
    qed
  qed
  with um show ?thesis unfolding n_def r_def by blast
qed

lemma unmasked_visited:
  assumes B: "0 < BLOCK_N a" and P: "0 \<le> P_SEQ a" and i: "i < BLOCK_M a"
    and u: "unmasked a (offs_m a start_m i) n"
  shows "n < n_tiles (fwd_hi a start_m) (BLOCK_N a) * BLOCK_N a"
proof -
  have N: "int (n_keys a) = int (N_CTX a) + P_SEQ a" using P by (simp add: n_keys_def)
  have "int n < fwd_hi a start_m"
  proof (cases "CAUSAL a")
    case True
    have "int (offs_m a start_m i) < (int start_m + 1) * int (BLOCK_M a)"
      using i by (simp add: offs_m_def algebra_simps)
    with u True show ?thesis by (simp add: unmasked_def fwd_hi_def)
  next
    case False
    with u N show ?thesis by (simp add: unmasked_def fwd_hi_def)
  qed
  with tiles_cover [OF B, of "fwd_hi a start_m"] show ?thesis by linarith
qed

lemma fwd_cell:
  assumes B: "0 < BLOCK_N a" and P: "0 \<le> P_SEQ a" and row: "offs_m a start_m i < N_CTX a"
    and dv: "DIVISIBLE_N a \<longrightarrow> BLOCK_N a dvd n_keys a"
    and k: "k < n_tiles (fwd_hi a start_m) (BLOCK_N a)" and j: "j < BLOCK_N a"
  shows "fwd_s a Q K V junk start_m off_h off_z (k * BLOCK_N a) i j =
           (if unmasked a (offs_m a start_m i) (k * BLOCK_N a + j)
            then Fin (fwd_logit a Q K V off_z off_h (offs_m a start_m i) (k * BLOCK_N a + j))
            else NInf)"
    and "unmasked a (offs_m a start_m i) (k * BLOCK_N a + j) \<Longrightarrow>
           fwd_v a K V junk off_h off_z (k * BLOCK_N a) j d
             = fwd_v_read a K V off_h off_z (k * BLOCK_N a + j) d"
proof -
  note iff = kernel_unmasked_iff [OF B P row dv k j]
  have kk: "fwd_k a K V junk off_h off_z (k * BLOCK_N a) j d
      = fwd_k_read a K V off_h off_z (k * BLOCK_N a + j) d"
    if "fwd_mask_n a (k * BLOCK_N a) j" for d
    using that j by (simp add: fwd_k_def fwd_k_read_def tl_load_def)
  show "fwd_s a Q K V junk start_m off_h off_z (k * BLOCK_N a) i j =
           (if unmasked a (offs_m a start_m i) (k * BLOCK_N a + j)
            then Fin (fwd_logit a Q K V off_z off_h (offs_m a start_m i) (k * BLOCK_N a + j))
            else NInf)"
  proof (cases "unmasked a (offs_m a start_m i) (k * BLOCK_N a + j)")
    case True
    with iff have mk: "fwd_mask_n a (k * BLOCK_N a) j" by blast
    from True iff show ?thesis
      unfolding fwd_s_eq by (simp add: fwd_logit_def qk_dot_def fwd_q_row [OF row] kk [OF mk])
  next
    case False
    with iff show ?thesis unfolding fwd_s_eq by simp
  qed
  assume "unmasked a (offs_m a start_m i) (k * BLOCK_N a + j)"
  with iff have mk: "fwd_mask_n a (k * BLOCK_N a) j" by blast
  then show "fwd_v a K V junk off_h off_z (k * BLOCK_N a) j d
             = fwd_v_read a K V off_h off_z (k * BLOCK_N a + j) d"
    using j by (simp add: fwd_v_def fwd_v_read_def tl_load_def)
qed

lemma sum_list_cong_upt:
  fixes f g :: "nat \<Rightarrow> real"
  assumes "\<And>k. k < T \<Longrightarrow> f k = g k"
  shows "(\<Sum>k\<leftarrow>[0..<T]. f k) = (\<Sum>k\<leftarrow>[0..<T]. g k)"
proof -
  have "map f [0..<T] = map g [0..<T]" using assms by (intro map_cong refl) simp
  then show ?thesis by (simp only:)
qed

text \<open>The sums over the visited blocks are the sums over the keys.\<close>

lemma fwd_block_sums:
  fixes a :: launch and Q K V :: tensor and junk :: "int \<Rightarrow> real" and start_m off_h off_z i :: nat
  assumes B: "0 < BLOCK_N a" and P: "0 \<le> P_SEQ a" and i: "i < BLOCK_M a"
    and row: "offs_m a start_m i < N_CTX a"
    and dv: "DIVISIBLE_N a \<longrightarrow> BLOCK_N a dvd n_keys a"
  defines "m \<equiv> offs_m a start_m i"
  defines "F \<equiv> softmax_weight (unmasked a m) (\<lambda>n. fwd_logit a Q K V off_z off_h m n * sm_scale a)"
  defines "S \<equiv> \<lambda>t. fwd_s a Q K V junk start_m off_h off_z t i"
  shows "(\<Sum>t\<leftarrow>py_range 0 (fwd_hi a start_m) (BLOCK_N a). \<Sum>j<BLOCK_N a. wt (qk_scale a) (S t j))
           = (\<Sum>n<n_keys a. F n)"
    and "(\<Sum>t\<leftarrow>py_range 0 (fwd_hi a start_m) (BLOCK_N a).
            \<Sum>j<BLOCK_N a. wt (qk_scale a) (S t j) * fwd_v a K V junk off_h off_z t j d)
           = (\<Sum>n<n_keys a. F n * fwd_v_read a K V off_h off_z n d)"
proof -
  let ?B = "BLOCK_N a" and ?T = "n_tiles (fwd_hi a start_m) (BLOCK_N a)"
  have cell: "wt (qk_scale a) (S (k * ?B) j) = F (k * ?B + j)" if "k < ?T" "j < ?B" for k j
    unfolding S_def F_def m_def fwd_cell(1) [OF B P row dv that]
    by (simp add: wt_def softmax_weight_def exp2_qk_scale)
  have cellv: "wt (qk_scale a) (S (k * ?B) j) * fwd_v a K V junk off_h off_z (k * ?B) j d
      = F (k * ?B + j) * fwd_v_read a K V off_h off_z (k * ?B + j) d" if "k < ?T" "j < ?B" for k j
  proof (cases "unmasked a (offs_m a start_m i) (k * ?B + j)")
    case True
    from fwd_cell(2) [OF B P row dv that True] cell [OF that] show ?thesis by simp
  next
    case False
    then have "F (k * ?B + j) = 0" by (simp add: F_def m_def softmax_weight_def)
    with cell [OF that] show ?thesis by simp
  qed
  have supp: "n < ?T * ?B \<and> n < n_keys a" if "F n \<noteq> 0" for n
  proof -
    from that have u: "unmasked a (offs_m a start_m i) n"
      by (simp add: F_def m_def softmax_weight_def split: if_splits)
    from unmasked_visited [OF B P i u] u show ?thesis by (simp add: unmasked_def)
  qed
  have suppv: "n < ?T * ?B \<and> n < n_keys a" if "F n * fwd_v_read a K V off_h off_z n d \<noteq> 0" for n
    using that supp [of n] by auto
  have "(\<Sum>t\<leftarrow>py_range 0 (fwd_hi a start_m) ?B. \<Sum>j<?B. wt (qk_scale a) (S t j))
      = (\<Sum>k\<leftarrow>[0..<?T]. \<Sum>j<?B. wt (qk_scale a) (S (k * ?B) j))"
    by (simp add: py_range_0 comp_def)
  also have "\<dots> = (\<Sum>k\<leftarrow>[0..<?T]. \<Sum>j<?B. F (k * ?B + j))"
    by (intro sum_list_cong_upt sum.cong refl) (simp add: cell)
  also have "\<dots> = (\<Sum>n<?T * ?B. F n)" by (rule sum_tiles)
  also have "\<dots> = (\<Sum>n<n_keys a. F n)" using supp by (rule sum_support)
  finally show "(\<Sum>t\<leftarrow>py_range 0 (fwd_hi a start_m) ?B. \<Sum>j<?B. wt (qk_scale a) (S t j))
           = (\<Sum>n<n_keys a. F n)" .
  have "(\<Sum>t\<leftarrow>py_range 0 (fwd_hi a start_m) ?B.
            \<Sum>j<?B. wt (qk_scale a) (S t j) * fwd_v a K V junk off_h off_z t j d)
      = (\<Sum>k\<leftarrow>[0..<?T]. \<Sum>j<?B. wt (qk_scale a) (S (k * ?B) j) * fwd_v a K V junk off_h off_z (k * ?B) j d)"
    by (simp add: py_range_0 comp_def)
  also have "\<dots> = (\<Sum>k\<leftarrow>[0..<?T]. \<Sum>j<?B. F (k * ?B + j) * fwd_v_read a K V off_h off_z (k * ?B + j) d)"
    by (intro sum_list_cong_upt sum.cong refl) (simp add: cellv)
  also have "\<dots> = (\<Sum>n<?T * ?B. F n * fwd_v_read a K V off_h off_z n d)"
    by (rule sum_tiles [of "\<lambda>n. F n * fwd_v_read a K V off_h off_z n d"])
  also have "\<dots> = (\<Sum>n<n_keys a. F n * fwd_v_read a K V off_h off_z n d)"
    using suppv by (rule sum_support)
  finally show "(\<Sum>t\<leftarrow>py_range 0 (fwd_hi a start_m) ?B.
            \<Sum>j<?B. wt (qk_scale a) (S t j) * fwd_v a K V junk off_h off_z t j d)
           = (\<Sum>n<n_keys a. F n * fwd_v_read a K V off_h off_z n d)" .
qed

lemma n_tiles_pos:
  assumes "0 < B" "0 < hi"
  shows "0 < n_tiles hi B"
proof (rule ccontr)
  assume "\<not> 0 < n_tiles hi B"
  then have "n_tiles hi B * B = 0" by simp
  with tiles_cover [OF assms(1), of hi] assms(2) show False by simp
qed

lemma fwd_hi_pos:
  assumes "0 \<le> P_SEQ a" "i < BLOCK_M a" "offs_m a start_m i < N_CTX a"
  shows "0 < fwd_hi a start_m"
proof (cases "CAUSAL a")
  case True
  have "0 < (int start_m + 1) * int (BLOCK_M a)" using assms(2) by simp
  with assms(1) True show ?thesis by (simp add: fwd_hi_def)
next
  case False
  with assms show ?thesis by (simp add: fwd_hi_def)
qed

lemma fwd_loop_closed:
  fixes a :: launch and Q K V :: tensor and junk :: "int \<Rightarrow> real" and start_m off_h off_z i :: nat
  assumes sc: "0 < sm_scale a" and B: "0 < BLOCK_N a" and P: "0 \<le> P_SEQ a" and i: "i < BLOCK_M a"
    and row: "offs_m a start_m i < N_CTX a"
    and dv: "DIVISIBLE_N a \<longrightarrow> BLOCK_N a dvd n_keys a"
  defines "m \<equiv> offs_m a start_m i"
  defines "lg \<equiv> fwd_logit a Q K V off_z off_h m"
  defines "F \<equiv> softmax_weight (unmasked a m) (\<lambda>n. lg n * sm_scale a)"
  shows "\<exists>mx l A. fwd_loop a Q K V junk start_m off_h off_z i = (Fin mx, Fin l, \<lambda>d. Fin (A d)) \<and>
           l * exp (mx * sm_scale a) = (\<Sum>n<n_keys a. F n) \<and>
           (\<forall>d. A d * exp (mx * sm_scale a) = (\<Sum>n<n_keys a. F n * fwd_v_read a K V off_h off_z n d)) \<and>
           (\<exists>n. unmasked a m n \<and> lg n = mx) \<and>
           (\<forall>n. unmasked a m n \<longrightarrow> lg n \<le> mx)"
proof -
  let ?B = "BLOCK_N a" and ?T = "n_tiles (fwd_hi a start_m) (BLOCK_N a)"
  let ?S = "\<lambda>t. fwd_s a Q K V junk start_m off_h off_z t i"
  let ?V = "fwd_v a K V junk off_h off_z"
  let ?ts = "py_range 0 (fwd_hi a start_m) ?B"
  have c: "0 < qk_scale a" using sc by (rule qk_scale_pos)
  have T: "0 < ?T" using B fwd_hi_pos [OF P i row] by (rule n_tiles_pos)
  have ts: "?ts = 0 # map (\<lambda>t. t * ?B) [1..<?T]"
    using T by (simp add: py_range_0 upt_conv_Cons)
  have u0: "unmasked a m 0" using P row by (simp add: unmasked_int [OF P] m_def)
  have s0: "?S 0 0 = Fin (lg 0)"
    using fwd_cell(1) [OF B P row dv T B, of Q K V junk off_h off_z] u0 by (simp add: m_def lg_def)
  have ex: "\<exists>j<?B. ?S 0 j \<noteq> NInf" using s0 B by (intro exI [of _ 0]) simp
  have lgs: "\<forall>t\<in>set (0 # map (\<lambda>t. t * ?B) [1..<?T]). \<forall>j<?B. is_logit (?S t j)"
    by (simp add: fwd_s_logit)
  have "stream_inv (qk_scale a) ?B ?S ?V ?ts (fwd_loop a Q K V junk start_m off_h off_z i)"
    unfolding fwd_loop_def ts by (rule stream_inv_loop [OF c lgs ex])
  then obtain mx l A where st: "fwd_loop a Q K V junk start_m off_h off_z i = (Fin mx, Fin l, \<lambda>d. Fin (A d))"
    and l: "l * exp2 (mx * qk_scale a) = (\<Sum>t\<leftarrow>?ts. \<Sum>j<?B. wt (qk_scale a) (?S t j))"
    and A: "\<And>d. A d * exp2 (mx * qk_scale a) = (\<Sum>t\<leftarrow>?ts. \<Sum>j<?B. wt (qk_scale a) (?S t j) * ?V t j d)"
    and at: "\<exists>t\<in>set ?ts. \<exists>j<?B. ?S t j = Fin mx"
    and ub: "\<forall>t\<in>set ?ts. \<forall>j<?B. \<forall>x. ?S t j = Fin x \<longrightarrow> x \<le> mx"
    unfolding stream_inv_def by blast
  have l': "l * exp (mx * sm_scale a) = (\<Sum>n<n_keys a. F n)"
    using l unfolding fwd_block_sums(1) [OF B P i row dv] exp2_qk_scale
    by (simp add: F_def lg_def m_def)
  have A': "A d * exp (mx * sm_scale a) = (\<Sum>n<n_keys a. F n * fwd_v_read a K V off_h off_z n d)" for d
    using A [of d] unfolding fwd_block_sums(2) [OF B P i row dv] exp2_qk_scale
    by (simp add: F_def lg_def m_def)
  have at': "\<exists>n. unmasked a m n \<and> lg n = mx"
  proof -
    from at obtain k j where kj: "k < ?T" "j < ?B" "?S (k * ?B) j = Fin mx"
      by (auto simp: py_range_0)
    from kj(3) show ?thesis
      unfolding fwd_cell(1) [OF B P row dv kj(1,2)]
      by (intro exI [of _ "k * ?B + j"]) (simp add: m_def lg_def split: if_splits)
  qed
  have ub': "\<forall>n. unmasked a m n \<longrightarrow> lg n \<le> mx"
  proof (intro allI impI)
    fix n assume u: "unmasked a m n"
    then have n: "n < ?T * ?B" unfolding m_def by (rule unmasked_visited [OF B P i])
    define k j where "k = n div ?B" and "j = n mod ?B"
    have kj: "k < ?T" "j < ?B" "k * ?B + j = n"
      using n B by (simp_all add: k_def j_def less_mult_imp_div_less)
    have "k * ?B \<in> set ?ts" using kj(1) by (auto simp: py_range_0)
    moreover have "?S (k * ?B) j = Fin (lg n)"
      using fwd_cell(1) [OF B P row dv kj(1,2), of Q K V junk off_h off_z] u
      by (simp add: kj(3) m_def lg_def)
    ultimately show "lg n \<le> mx" using ub kj(2) by blast
  qed
  from st l' A' at' ub' show ?thesis by blast
qed

section \<open>Helper facts on loops, grids and layouts\<close>

lemma foldl_skip:
  assumes "\<And>st x. x \<in> set xs \<Longrightarrow> \<not> P x \<Longrightarrow> f st x = st"
  shows "foldl f st xs = foldl f st (filter P xs)"
  using assms by (induction xs arbitrary: st) auto

lemma foldl_id:
  assumes "\<And>st x. x \<in> set xs \<Longrightarrow> f st x = st"
  shows "foldl f st xs = st"
  using assms by (induction xs arbitrary: st) auto

lemma set_launch_grid:
  "s \<in> set (launch_grid (T, H, Z) kern) \<longleftrightarrow> (\<exists>z<Z. \<exists>h<H. \<exists>t<T. s \<in> set (kern t h z))"
  by (simp add: launch_grid_def Bex_def)

lemma apply_stores_other:
  "a \<notin> fst ` set sts \<Longrightarrow> apply_stores buf sts a = buf a"
  unfolding apply_stores_def by (induction sts arbitrary: buf) auto

lemma cdiv_partial:
  assumes B: "0 < B" and nd: "M mod B \<noteq> 0"
  shows "cdiv M B = Suc (M div B)"
proof -
  define q r where "q = M div B * B" and "r = M mod B"
  have M: "M = q + r" by (simp add: q_def r_def)
  have r: "0 < r" "r < B" using nd B by (simp_all add: r_def)
  have "M + B - 1 = (r - 1) + Suc (M div B) * B" using M r by (simp add: q_def)
  then have "(M + B - 1) div B = (r - 1) div B + Suc (M div B)"
    using B by (simp only: div_mult_self1)
  moreover have "(r - 1) div B = 0" using r by simp
  ultimately show ?thesis by (simp add: cdiv_def)
qed

lemma radix_unique:
  fixes a b a' b' B :: nat
  assumes "a * B + b = a' * B + b'" "b < B" "b' < B"
  shows "a = a' \<and> b = b'"
proof -
  have "(a * B + b) div B = a" "(a' * B + b') div B = a'" using assms(2,3) by simp_all
  with assms(1) have "a = a'" by simp
  with assms(1) show ?thesis by simp
qed

lemma BHTD_row_ptrs:
  "row_ptrs (BHTD dev B H T D buf) h z n d = int (((z * H + h) * T + n) * D + d)"
  by (simp add: row_ptrs_def BHTD_def algebra_simps)

lemma BHTD_ptr_eq:
  assumes e: "row_ptrs (BHTD dev B H T D buf) h z m d = row_ptrs (BHTD dev B H T D buf) h' z' m' d'"
    and b: "h < H" "m < T" "d < D" "h' < H" "m' < T" "d' < D"
  shows "z = z' \<and> h = h' \<and> m = m' \<and> d = d'"
proof -
  from e have "((z * H + h) * T + m) * D + d = ((z' * H + h') * T + m') * D + d'"
    unfolding BHTD_row_ptrs by (simp only: of_nat_eq_iff)
  with b have 1: "(z * H + h) * T + m = (z' * H + h') * T + m'" "d = d'"
    using radix_unique [of "(z * H + h) * T + m" D d "(z' * H + h') * T + m'" d'] by simp_all
  with b have 2: "z * H + h = z' * H + h'" "m = m'"
    using radix_unique [of "z * H + h" T m "z' * H + h'" m'] by simp_all
  with b have 3: "z = z'" "h = h'"
    using radix_unique [of z H h z' h'] by simp_all
  from 1 2 3 show ?thesis by simp
qed

text \<open>A \<^verbatim>\<open>BHTD\<close> tensor is dense: distinct elements have distinct addresses.\<close>

lemma BHTD_inj_on:
  "inj_on (\<lambda>(z, h, m, d). row_ptrs (BHTD dev B H T D buf) h z m d)
     ({..<Z} \<times> {..<H} \<times> {..<T} \<times> {..<D})"
  by (rule inj_onI) (auto dest!: BHTD_ptr_eq)

section \<open>The sweep of the backward KV kernel\<close>

text \<open>Rows below \<open>lo\<close> are causally masked against every column of the key block.\<close>

lemma bwd_kv_lo_masked:
  assumes "m < bwd_kv_lo a start_n"
  shows "P_SEQ a + int m < int (bwd_kv_offs_n a start_n j)"
proof -
  let ?X = "nat (max (int (start_n * BLOCK_N a) - P_SEQ a) 0)"
  from assms have c: "CAUSAL a" by (auto simp: bwd_kv_lo_def split: if_splits)
  then have lo: "bwd_kv_lo a start_n = ?X div BLOCK_M a * BLOCK_M a" by (simp add: bwd_kv_lo_def)
  have "?X div BLOCK_M a * BLOCK_M a \<le> ?X" by simp
  with assms lo have "m < ?X" by linarith
  then have "int m < int (start_n * BLOCK_N a) - P_SEQ a" by linarith
  then show ?thesis by (simp add: bwd_kv_offs_n_def)
qed

text \<open>An iteration on a query block that lies below \<open>lo\<close> adds zeros to \<open>dk\<close> and
  \<open>dv\<close>.\<close>

lemma bwd_kv_update_skipped:
  assumes c: "CAUSAL a" and le: "start_m + BLOCK_M a \<le> bwd_kv_lo a start_n"
  shows "bwd_kv_update a x start_n off_h off_z start_m st = st"
proof -
  have cm: "\<not> bwd_kv_causal_mask a start_n start_m i j" if "i < BLOCK_M a" for i j
  proof -
    from that le have "start_m + i < bwd_kv_lo a start_n" by simp
    from bwd_kv_lo_masked [OF this, of j] show ?thesis by (simp add: bwd_kv_causal_mask_def)
  qed
  have p: "bwd_kv_p a x start_n off_h off_z start_m i j = 0" if "i < BLOCK_M a" for i j
    using c cm [OF that] by (simp add: bwd_kv_p_def Let_def)
  have ds: "bwd_kv_ds a x start_n off_h off_z start_m i j = 0" if "i < BLOCK_M a" for i j
    using c cm [OF that] by (simp add: bwd_kv_ds_def Let_def)
  obtain dk dv where st: "st = (dk, dv)" by (cases st)
  show ?thesis by (simp add: st bwd_kv_update_def p ds)
qed

text \<open>\<^verbatim>\<open>range(0, M, B)\<close> is the blocks below \<open>L * B\<close> followed by
  \<^verbatim>\<open>range(L * B, M, B)\<close>.\<close>

lemma py_range_split:
  assumes B: "0 < B"
  shows "py_range 0 (int M) B = map (\<lambda>t. t * B) [0..<min L (n_tiles (int M) B)] @ py_range (L * B) (int M) B"
proof -
  let ?T = "n_tiles (int M) B"
  have "(int M - int (L * B) + int B - 1) div int B = (int M + int B - 1 + (- int L) * int B) div int B"
    by (simp add: algebra_simps)
  also have "\<dots> = - int L + (int M + int B - 1) div int B"
    using B by (intro div_mult_self1) simp
  finally have "nat ((int M - int (L * B) + int B - 1) div int B) = ?T - L"
    by (simp add: n_tiles_def)
  then have "py_range (L * B) (int M) B = map (\<lambda>t. L * B + t * B) [0..<?T - L]"
    by (simp add: py_range_def)
  also have "\<dots> = map (\<lambda>t. t * B) (map (\<lambda>t. t + L) [0..<?T - L])"
    by (simp add: comp_def algebra_simps)
  also have "map (\<lambda>t. t + L) [0..<?T - L] = [min L ?T..<?T]"
  proof (cases "L \<le> ?T")
    case True
    then show ?thesis using map_add_upt [of L "?T - L"] by (simp add: min_def)
  next
    case False
    then show ?thesis by simp
  qed
  finally have r: "py_range (L * B) (int M) B = map (\<lambda>t. t * B) [min L ?T..<?T]" .
  have "[0..<?T] = [0..<min L ?T] @ [min L ?T..<?T]"
    using upt_add_eq_append [of 0 "min L ?T" "?T - min L ?T"] by simp
  then have "map (\<lambda>t. t * B) [0..<?T] = map (\<lambda>t. t * B) [0..<min L ?T] @ map (\<lambda>t. t * B) [min L ?T..<?T]"
    by (metis map_append)
  then show ?thesis by (simp only: r py_range_0)
qed

text \<open>
  Claim C9. In the causal backward KV kernel the sweep over query blocks, for the key block
  that starts at column \<open>start_n * BLOCK_N\<close>, begins at
  \<open>lo = floor (max (start_n * BLOCK_N - P_SEQ, 0) / BLOCK_M) * BLOCK_M\<close>; every row \<open>m\<close>
  below \<open>lo\<close> and every column \<open>n\<close> of the key block satisfy \<open>P_SEQ + m < n\<close>; and the sweep
  from \<open>lo\<close> leaves the same \<open>dk\<close> and \<open>dv\<close> as the sweep from query block \<open>0\<close>.
\<close>

theorem bwd_kv_sweep_from_lo:
  assumes c: "CAUSAL a" and B: "0 < BLOCK_M a"
  shows "bwd_kv_lo a start_n
           = nat (max (int (start_n * BLOCK_N a) - P_SEQ a) 0) div BLOCK_M a * BLOCK_M a
       \<and> (\<forall>m j. m < bwd_kv_lo a start_n \<longrightarrow> P_SEQ a + int m < int (bwd_kv_offs_n a start_n j))
       \<and> bwd_kv_sweep a x start_n off_h off_z (bwd_kv_lo a start_n)
           = bwd_kv_sweep a x start_n off_h off_z 0"
proof (intro conjI allI impI)
  show "bwd_kv_lo a start_n = nat (max (int (start_n * BLOCK_N a) - P_SEQ a) 0) div BLOCK_M a * BLOCK_M a"
    using c by (simp add: bwd_kv_lo_def)
  show "P_SEQ a + int m < int (bwd_kv_offs_n a start_n j)" if "m < bwd_kv_lo a start_n" for m j
    using that by (rule bwd_kv_lo_masked)
  let ?B = "BLOCK_M a"
  define L where "L = nat (max (int (start_n * BLOCK_N a) - P_SEQ a) 0) div ?B"
  have lo: "bwd_kv_lo a start_n = L * ?B" using c by (simp add: bwd_kv_lo_def L_def)
  let ?f = "\<lambda>st start_m. bwd_kv_update a x start_n off_h off_z start_m st"
  let ?init = "(\<lambda>j d. 0, \<lambda>j d. 0) :: kv_state"
  let ?pre = "map (\<lambda>t. t * ?B) [0..<min L (n_tiles (int (N_CTX a)) ?B)]"
  have skip: "?f st s = st" if "s \<in> set ?pre" for st s
  proof -
    from that have "\<exists>t. s = t * ?B \<and> t < L" by auto
    then obtain t where t: "s = t * ?B" "t < L" by blast
    then have "Suc t * ?B \<le> L * ?B" by (intro mult_le_mono1) simp
    then have "s + ?B \<le> bwd_kv_lo a start_n" by (simp add: t lo)
    with c show ?thesis by (rule bwd_kv_update_skipped)
  qed
  have "bwd_kv_sweep a x start_n off_h off_z 0
      = foldl ?f (foldl ?f ?init ?pre) (py_range (L * ?B) (int (N_CTX a)) ?B)"
    unfolding bwd_kv_sweep_def py_range_split [OF B, of "N_CTX a" L] by (simp only: foldl_append)
  also have "foldl ?f ?init ?pre = ?init" using skip by (rule foldl_id)
  finally show "bwd_kv_sweep a x start_n off_h off_z (bwd_kv_lo a start_n)
      = bwd_kv_sweep a x start_n off_h off_z 0"
    by (simp add: bwd_kv_sweep_def lo)
qed

theorem bwd_kv_sweep_from_lo_witness:
  "CAUSAL (ex_launch 256 0 True) \<and> 0 < BLOCK_M (ex_launch 256 0 True)
   \<and> bwd_kv_lo (ex_launch 256 0 True) 2 = 128
   \<and> P_SEQ (ex_launch 256 0 True) + int 127 < int (bwd_kv_offs_n (ex_launch 256 0 True) 2 0)
   \<and> bwd_kv_sweep (ex_launch 256 0 True) (ex_in 256) 2 0 0 (bwd_kv_lo (ex_launch 256 0 True) 2)
       = bwd_kv_sweep (ex_launch 256 0 True) (ex_in 256) 2 0 0 0"
proof -
  have c: "CAUSAL (ex_launch 256 0 True)" and B: "0 < BLOCK_M (ex_launch 256 0 True)"
    by (simp_all add: ex_launch_def)
  have lo: "bwd_kv_lo (ex_launch 256 0 True) 2 = 128"
    by (simp add: bwd_kv_lo_def ex_launch_def)
  from bwd_kv_sweep_from_lo [OF c B, of 2 "ex_in 256" 0 0]
  have m: "\<forall>m j. m < bwd_kv_lo (ex_launch 256 0 True) 2
             \<longrightarrow> P_SEQ (ex_launch 256 0 True) + int m < int (bwd_kv_offs_n (ex_launch 256 0 True) 2 j)"
    and s: "bwd_kv_sweep (ex_launch 256 0 True) (ex_in 256) 2 0 0 (bwd_kv_lo (ex_launch 256 0 True) 2)
       = bwd_kv_sweep (ex_launch 256 0 True) (ex_in 256) 2 0 0 0"
    by blast+
  from m [rule_format, of 127 0] lo
  have "P_SEQ (ex_launch 256 0 True) + int 127 < int (bwd_kv_offs_n (ex_launch 256 0 True) 2 0)"
    by simp
  with c B lo s show ?thesis by blast
qed

section \<open>The boundary masks of the backward Q kernel\<close>

lemma bwd_q_mask_m_last:
  assumes nd: "\<not> DIVISIBLE_M a" and last: "start_m * BLOCK_M a + BLOCK_M a > N_CTX a"
  shows "bwd_q_mask_m a start_m i = (offs_m a start_m i < N_CTX a mod BLOCK_M a)"
  using assms by (simp add: bwd_q_mask_m_def)

lemma bwd_q_mask_m_none:
  assumes nd: "\<not> DIVISIBLE_M a" and last: "start_m * BLOCK_M a + BLOCK_M a > N_CTX a"
    and pos: "0 < start_m" and B: "0 < BLOCK_M a"
  shows "\<not> bwd_q_mask_m a start_m i"
proof -
  have "N_CTX a mod BLOCK_M a < BLOCK_M a" using B by simp
  also have "BLOCK_M a \<le> start_m * BLOCK_M a" using pos by simp
  also have "\<dots> \<le> offs_m a start_m i" by (simp add: offs_m_def)
  finally show ?thesis using nd last by (simp add: bwd_q_mask_m_def)
qed

text \<open>
  Claim C4. In the backward Q kernel, when \<open>M\<close> is not divisible by \<open>BLOCK_M\<close>, the boundary
  mask of the last query block compares the global row index with \<open>M mod BLOCK_M\<close> (the
  forward kernel's mask compares it with \<open>M\<close>). When that block starts at a nonzero row
  (\<open>BLOCK_M < M\<close>), the mask excludes every row of it, its loads of \<open>q\<close>, \<open>do\<close>, \<open>delta\<close> and
  \<open>L\<close> are masked out, the instance stores nothing, and no instance of the grid stores to
  the rows of that block: in a dense \<open>dQ\<close> they keep the zeros of \<^verbatim>\<open>torch.zeros_like\<close>.
\<close>

theorem bwd_q_last_block_never_stored:
  assumes nd: "\<not> DIVISIBLE_M a" and B: "0 < BLOCK_M a" and rem: "N_CTX a mod BLOCK_M a \<noteq> 0"
    and big: "BLOCK_M a < N_CTX a"
    and inj: "inj_on (\<lambda>(z, h, m, d). row_ptrs DQ h z m d)
                ({..<Z} \<times> {..<nheads a} \<times> {..<N_CTX a} \<times> {..<BLOCK_DMODEL a})"
    and z: "z < Z" and h: "h < nheads a" and i: "i < BLOCK_M a" and d: "d < BLOCK_DMODEL a"
    and row: "offs_m a (N_CTX a div BLOCK_M a) i < N_CTX a"
  defines "start_m \<equiv> N_CTX a div BLOCK_M a"
  shows "bwd_q_mask_m a start_m i = (offs_m a start_m i < N_CTX a mod BLOCK_M a)
       \<and> fwd_mask_m a start_m i = (offs_m a start_m i < N_CTX a)
       \<and> \<not> bwd_q_mask_m a start_m i
       \<and> bwd_q_q a x start_m h z i d = junk_in x (row_ptrs (Q_in x) h z (offs_m a start_m i) d)
       \<and> bwd_q_do a x start_m h z i d = junk_in x (row_ptrs (DO_in x) h z (offs_m a start_m i) d)
       \<and> bwd_q_delta a x start_m h z i = junk_in x (stat_ptrs a h z (offs_m a start_m i))
       \<and> bwd_q_l a x start_m h z i = junk_in x (stat_ptrs a h z (offs_m a start_m i))
       \<and> bwd_q_kernel a x DQ start_m h z = []
       \<and> apply_stores (\<lambda>_. 0) (launch_grid (cdiv (N_CTX a) (BLOCK_M a), nheads a, Z) (bwd_q_kernel a x DQ))
           (row_ptrs DQ h z (offs_m a start_m i) d) = 0"
proof -
  let ?B = "BLOCK_M a" and ?M = "N_CTX a"
  have last: "start_m * ?B + ?B > ?M"
    using B mod_less_divisor [OF B, of ?M] div_mult_mod_eq [of ?M ?B]
    unfolding start_m_def by linarith
  have pos: "0 < start_m" using big B by (simp add: start_m_def div_greater_zero_iff)
  have none: "\<not> bwd_q_mask_m a start_m i'" for i'
    using nd last pos B by (rule bwd_q_mask_m_none)
  have empty: "bwd_q_kernel a x DQ start_m h' z' = []" for h' z'
    by (simp add: bwd_q_kernel_def none)
  have grid: "cdiv ?M ?B = Suc start_m" using B rem unfolding start_m_def by (rule cdiv_partial)
  have notin: "row_ptrs DQ h z (offs_m a start_m i) d
      \<notin> fst ` set (launch_grid (cdiv ?M ?B, nheads a, Z) (bwd_q_kernel a x DQ))"
  proof
    assume "row_ptrs DQ h z (offs_m a start_m i) d
      \<in> fst ` set (launch_grid (cdiv ?M ?B, nheads a, Z) (bwd_q_kernel a x DQ))"
    then obtain v z' h' t where s: "z' < Z" "h' < nheads a" "t < Suc start_m"
      "(row_ptrs DQ h z (offs_m a start_m i) d, v) \<in> set (bwd_q_kernel a x DQ t h' z')"
      unfolding grid by (force simp: set_launch_grid)
    from s(4) empty have "t \<noteq> start_m" by auto
    with s(3) have t: "t < start_m" by simp
    from s(4) obtain i' d' where i': "i' < ?B" "d' < BLOCK_DMODEL a"
      "row_ptrs DQ h z (offs_m a start_m i) d = row_ptrs DQ h' z' (offs_m a t i') d'"
      by (auto simp: bwd_q_kernel_def)
    have "Suc t * ?B \<le> start_m * ?B" using t by (intro mult_le_mono1) simp
    then have lt: "offs_m a t i' < start_m * ?B" using i'(1) by (simp add: offs_m_def)
    also have "start_m * ?B \<le> ?M" by (simp add: start_m_def)
    finally have m': "offs_m a t i' < ?M" .
    have "(z, h, offs_m a start_m i, d) = (z', h', offs_m a t i', d')"
      using inj i'(3) z h d s(1,2) i'(2) m' row
      by (intro inj_onD [OF inj]) (auto simp: start_m_def)
    then have "offs_m a start_m i = offs_m a t i'" by simp
    moreover have "start_m * ?B \<le> offs_m a start_m i" by (simp add: offs_m_def)
    ultimately show False using lt by simp
  qed
  show ?thesis
    using nd last none [of i] empty [of h z] apply_stores_other [OF notin, of "\<lambda>_. 0"]
    by (simp add: bwd_q_mask_m_last fwd_mask_m_def bwd_q_q_def bwd_q_do_def bwd_q_delta_def bwd_q_l_def
        tl_load_def)
qed

theorem bwd_q_last_block_never_stored_witness:
  "N_CTX (ex_launch 96 0 False) div BLOCK_M (ex_launch 96 0 False) = 1
   \<and> \<not> bwd_q_mask_m (ex_launch 96 0 False)
         (N_CTX (ex_launch 96 0 False) div BLOCK_M (ex_launch 96 0 False)) 0
   \<and> bwd_q_kernel (ex_launch 96 0 False) (ex_in 96) (BHTD 0 1 1 96 16 zeros)
         (N_CTX (ex_launch 96 0 False) div BLOCK_M (ex_launch 96 0 False)) 0 0 = []
   \<and> apply_stores (\<lambda>_. 0)
       (launch_grid (cdiv (N_CTX (ex_launch 96 0 False)) (BLOCK_M (ex_launch 96 0 False)),
                     nheads (ex_launch 96 0 False), 1)
          (bwd_q_kernel (ex_launch 96 0 False) (ex_in 96) (BHTD 0 1 1 96 16 zeros)))
       (row_ptrs (BHTD 0 1 1 96 16 zeros) 0 0
          (offs_m (ex_launch 96 0 False)
             (N_CTX (ex_launch 96 0 False) div BLOCK_M (ex_launch 96 0 False)) 0) 0) = 0"
proof -
  let ?a = "ex_launch 96 0 False"
  have nd: "\<not> DIVISIBLE_M ?a" and B: "0 < BLOCK_M ?a" and rem: "N_CTX ?a mod BLOCK_M ?a \<noteq> 0"
    and big: "BLOCK_M ?a < N_CTX ?a" and h: "0 < nheads ?a" and i: "0 < BLOCK_M ?a"
    and d: "0 < BLOCK_DMODEL ?a" and row: "offs_m ?a (N_CTX ?a div BLOCK_M ?a) 0 < N_CTX ?a"
    and z: "(0::nat) < 1"
    by (simp_all add: ex_launch_def offs_m_def)
  have inj: "inj_on (\<lambda>(z, h, m, d). row_ptrs (BHTD 0 1 1 96 16 zeros) h z m d)
                ({..<1} \<times> {..<nheads ?a} \<times> {..<N_CTX ?a} \<times> {..<BLOCK_DMODEL ?a})"
    using BHTD_inj_on [of 0 1 1 96 16 zeros 1] by (simp add: ex_launch_def)
  have s: "N_CTX ?a div BLOCK_M ?a = 1" by (simp add: ex_launch_def)
  from bwd_q_last_block_never_stored [OF nd B rem big inj z h i d row, of "ex_in 96"] s
  show ?thesis by blast
qed

lemma bwd_q_mask_n_none:
  assumes nd: "\<not> DIVISIBLE_N a" and B: "0 < BLOCK_N a"
    and last: "int (start_n + BLOCK_N a) > int (N_CTX a) + P_SEQ a"
    and pos: "BLOCK_N a \<le> start_n"
  shows "\<not> bwd_q_mask_n a start_n j"
proof -
  have "(int (N_CTX a) + P_SEQ a) mod int (BLOCK_N a) < int (BLOCK_N a)" using B by simp
  also have "\<dots> \<le> int (start_n + j)" using pos by simp
  finally show ?thesis using nd last by (simp add: bwd_q_mask_n_def)
qed

text \<open>
  Claim C5. In the backward Q kernel, when \<open>N\<close> is not divisible by \<open>BLOCK_N\<close>, the mask of a
  key block that reaches beyond \<open>N\<close> compares the global column index with \<open>N mod BLOCK_N\<close>.
  When such a block starts at a nonzero column (\<open>start_n \<ge> BLOCK_N\<close>), the mask is false for
  every column of it, \<open>ds\<close> is zero over the whole block, the iteration leaves \<open>dq\<close> as it
  was, and the loop computes what it computes with that block left out: the keys of the
  block that are in range contribute nothing to \<open>dQ\<close>.
\<close>

theorem bwd_q_last_key_block_dropped:
  assumes nd: "\<not> DIVISIBLE_N a" and B: "0 < BLOCK_N a"
    and last: "int (start_n + BLOCK_N a) > int (N_CTX a) + P_SEQ a"
    and pos: "BLOCK_N a \<le> start_n"
  shows "(\<forall>j. bwd_q_mask_n a start_n j
               = (int (start_n + j) < (int (N_CTX a) + P_SEQ a) mod int (BLOCK_N a)))
       \<and> (\<forall>j. \<not> bwd_q_mask_n a start_n j)
       \<and> (\<forall>i j. bwd_q_ds a x start_m off_h off_z start_n i j = 0)
       \<and> bwd_q_update a x start_m off_h off_z start_n dq = dq
       \<and> bwd_q_loop a x start_m off_h off_z blocks
           = bwd_q_loop a x start_m off_h off_z (filter (\<lambda>s. s \<noteq> start_n) blocks)"
proof -
  have none: "\<not> bwd_q_mask_n a start_n j" for j
    using nd B last pos by (rule bwd_q_mask_n_none)
  have ds: "bwd_q_ds a x start_m off_h off_z start_n i j = 0" for i j
    by (simp add: bwd_q_ds_def Let_def none)
  have upd: "bwd_q_update a x start_m off_h off_z start_n dq' = dq'" for dq'
    by (simp add: bwd_q_update_def ds)
  have "bwd_q_loop a x start_m off_h off_z blocks
      = bwd_q_loop a x start_m off_h off_z (filter (\<lambda>s. s \<noteq> start_n) blocks)"
    unfolding bwd_q_loop_def by (rule foldl_skip) (simp add: upd)
  with none ds upd show ?thesis using nd last by (simp add: bwd_q_mask_n_def)
qed

theorem bwd_q_last_key_block_dropped_witness:
  "\<not> DIVISIBLE_N (ex_launch 96 0 False)
   \<and> \<not> bwd_q_mask_n (ex_launch 96 0 False) 64 0
   \<and> bwd_q_ds (ex_launch 96 0 False) (ex_in 96) 0 0 0 64 0 0 = 0
   \<and> bwd_q_loop (ex_launch 96 0 False) (ex_in 96) 0 0 0 [0, 64]
       = bwd_q_loop (ex_launch 96 0 False) (ex_in 96) 0 0 0 [0]"
proof -
  let ?a = "ex_launch 96 0 False"
  have nd: "\<not> DIVISIBLE_N ?a" and B: "0 < BLOCK_N ?a"
    and last: "int (64 + BLOCK_N ?a) > int (N_CTX ?a) + P_SEQ ?a" and pos: "BLOCK_N ?a \<le> 64"
    by (simp_all add: ex_launch_def)
  from bwd_q_last_key_block_dropped [OF nd B last pos, of "ex_in 96" 0 0 0 "\<lambda>i d. 0" "[0, 64]"]
  have 1: "\<forall>j. \<not> bwd_q_mask_n ?a 64 j" and 2: "\<forall>i j. bwd_q_ds ?a (ex_in 96) 0 0 0 64 i j = 0"
    and 3: "bwd_q_loop ?a (ex_in 96) 0 0 0 [0, 64]
          = bwd_q_loop ?a (ex_in 96) 0 0 0 (filter (\<lambda>s. s \<noteq> 64) [0, 64])"
    by blast+
  from 3 have "bwd_q_loop ?a (ex_in 96) 0 0 0 [0, 64] = bwd_q_loop ?a (ex_in 96) 0 0 0 [0]" by simp
  with nd 1 2 show ?thesis by blast
qed

section \<open>The preconditions of the forward call\<close>

text \<open>What \<^verbatim>\<open>forward\<close> does when an \<^verbatim>\<open>assert\<close> fails: nothing is allocated and
  nothing is launched, but the current device is already the one of \<open>q\<close>.\<close>

lemma forward_rejects:
  assumes "\<not> (dim_k q = dim_k k \<and> dim_k k = dim_k v) \<or> dim_k k \<notin> {16, 32, 64, 128}"
  shows "snd (forward cap junk st q k v causal scale) = Inl AssertionError"
    and "allocated (fst (forward cap junk st q k v causal scale)) = allocated st"
    and "launched (fst (forward cap junk st q k v causal scale)) = launched st"
    and "current_device (fst (forward cap junk st q k v causal scale)) = device q"
  using assms by (auto simp: forward_def Let_def)

lemma forward_accepts:
  assumes "dim_k q = dim_k k" "dim_k k = dim_k v" "dim_k k \<in> {16, 32, 64, 128}"
  shows "\<exists>r. snd (forward cap junk st q k v causal scale) = Inr r \<and>
             saved r = fwd_launch (cap (device q)) q k causal scale"
    and "current_device (fst (forward cap junk st q k v causal scale)) = current_device st"
  using assms by (auto simp: forward_def Let_def)

text \<open>
  Claim C6 says that a causal call with \<open>N < M\<close> is rejected before any kernel launch.
  \<^verbatim>\<open>forward\<close> has no such check: with \<open>M = 2\<close>, \<open>N = 1\<close> and \<open>D = 16\<close> it is not rejected
  and launches \<^verbatim>\<open>_fwd_kernel\<close>.
\<close>

theorem causal_short_keys_counterexample:
  "snd (forward rtx3090 zeros host0 (BHTD 0 1 1 2 16 zeros) (BHTD 0 1 1 1 16 zeros) (BHTD 0 1 1 1 16 zeros)
          True None) \<noteq> Inl AssertionError
   \<and> launched (fst (forward rtx3090 zeros host0 (BHTD 0 1 1 2 16 zeros) (BHTD 0 1 1 1 16 zeros)
          (BHTD 0 1 1 1 16 zeros) True None)) = [(''_fwd_kernel'', 1, 1, 1)]"
  by (simp add: forward_def Let_def BHTD_def host0_def fwd_launch_def fwd_config_def rtx3090_def cdiv_def)

text \<open>
  Claim C6, amended. A causal call with \<open>N < M\<close> whose head dimensions are equal and in
  \<open>{16, 32, 64, 128}\<close> is not rejected: \<^verbatim>\<open>forward\<close> allocates \<open>O\<close> and \<open>L\<close> and launches
  \<^verbatim>\<open>_fwd_kernel\<close> with the negative prefix \<open>P_SEQ = N - M\<close>.
\<close>

theorem forward_causal_short_keys_runs:
  assumes "dim_n k < dim_n q" "dim_k q = dim_k k" "dim_k k = dim_k v" "dim_k k \<in> {16, 32, 64, 128}"
  shows "\<exists>r. snd (forward cap junk st q k v True scale) = Inr r \<and> P_SEQ (saved r) < 0 \<and>
             P_SEQ (saved r) = int (dim_n k) - int (dim_n q) \<and> CAUSAL (saved r) \<and>
             launched (fst (forward cap junk st q k v True scale))
               = launched st @ [(''_fwd_kernel'', cdiv (dim_n q) (BLOCK_M (saved r)), dim_h q, dim_z q)] \<and>
             allocated (fst (forward cap junk st q k v True scale))
               = allocated st @ [[dim_z q, dim_h q, dim_n q, dim_k q], [dim_z q, dim_h q, dim_n q]]"
  using assms by (auto simp: forward_def Let_def fwd_launch_def)

theorem forward_causal_short_keys_runs_witness:
  "\<exists>r. snd (forward rtx3090 zeros host0 (BHTD 0 1 1 2 16 zeros) (BHTD 0 1 1 1 16 zeros)
              (BHTD 0 1 1 1 16 zeros) True None) = Inr r \<and> P_SEQ (saved r) < 0"
proof -
  have 1: "dim_n (BHTD 0 1 1 1 16 zeros) < dim_n (BHTD 0 1 1 2 16 zeros)"
    and 2: "dim_k (BHTD 0 1 1 2 16 zeros) = dim_k (BHTD 0 1 1 1 16 zeros)"
    and 3: "dim_k (BHTD 0 1 1 1 16 zeros) = dim_k (BHTD 0 1 1 1 16 zeros)"
    and 4: "dim_k (BHTD 0 1 1 1 16 zeros) \<in> {16, 32, 64, 128}"
    by (simp_all add: BHTD_def)
  from forward_causal_short_keys_runs [OF 1 2 3 4, of rtx3090 zeros host0 None]
  show ?thesis by blast
qed

text \<open>
  Claim C7 says that a call with an unsupported or mismatched head dimension fails with no
  observable state changed. \<^verbatim>\<open>forward\<close> calls \<^verbatim>\<open>torch.cuda.set_device\<close> before its
  \<^verbatim>\<open>assert\<close>s and restores the device only at its end: with \<open>q\<close> on device \<open>1\<close>, the
  current device \<open>0\<close> and \<open>D = 8\<close>, the call fails and leaves device \<open>1\<close> current.
\<close>

theorem forward_failure_leaves_device_switched:
  "snd (forward rtx3090 zeros host0 (BHTD 1 1 1 4 8 zeros) (BHTD 1 1 1 4 8 zeros) (BHTD 1 1 1 4 8 zeros)
          False None) = Inl AssertionError
   \<and> current_device host0 = 0
   \<and> current_device (fst (forward rtx3090 zeros host0 (BHTD 1 1 1 4 8 zeros) (BHTD 1 1 1 4 8 zeros)
          (BHTD 1 1 1 4 8 zeros) False None)) = 1"
  by (simp add: forward_def Let_def BHTD_def host0_def)

section \<open>The outputs of the forward kernel\<close>

lemma softmax_weight_nonneg: "0 \<le> softmax_weight vis lg n"
  by (simp add: softmax_weight_def)

lemma softmax_sum_pos:
  assumes "n0 < N" "vis n0"
  shows "0 < (\<Sum>n<N. softmax_weight vis lg n)"
proof -
  have "0 < softmax_weight vis lg n0" using assms(2) by (simp add: softmax_weight_def)
  also have "\<dots> \<le> (\<Sum>n<N. softmax_weight vis lg n)"
    using assms(1) by (intro member_le_sum) (auto simp: softmax_weight_nonneg)
  finally show ?thesis .
qed

text \<open>The final state of the loop, for a row in range: the statistics and the outputs.\<close>

lemma fwd_row_result:
  fixes a :: launch and Q K V :: tensor and junk :: "int \<Rightarrow> real" and start_m off_h off_z i :: nat
  assumes sc: "0 < sm_scale a" and B: "0 < BLOCK_N a" and P: "0 \<le> P_SEQ a" and i: "i < BLOCK_M a"
    and row: "offs_m a start_m i < N_CTX a"
    and dv: "DIVISIBLE_N a \<longrightarrow> BLOCK_N a dvd n_keys a"
  defines "m \<equiv> offs_m a start_m i"
  defines "lg \<equiv> fwd_logit a Q K V off_z off_h m"
  defines "F \<equiv> softmax_weight (unmasked a m) (\<lambda>n. lg n * sm_scale a)"
  shows "\<exists>mx l A. fwd_loop a Q K V junk start_m off_h off_z i = (Fin mx, Fin l, \<lambda>d. Fin (A d))
           \<and> 0 < l
           \<and> (\<exists>n. unmasked a m n \<and> lg n = mx) \<and> (\<forall>n. unmasked a m n \<longrightarrow> lg n \<le> mx)
           \<and> l = (\<Sum>n<n_keys a. if unmasked a m n then exp ((lg n - mx) * sm_scale a) else 0)
           \<and> fwd_l_row a Q K V junk start_m off_h off_z i = Fin (mx * sm_scale a + ln l)
           \<and> mx * sm_scale a + ln l = ln (\<Sum>n<n_keys a. F n)
           \<and> (\<forall>d. fwd_o_row a Q K V junk start_m off_h off_z i d
                  = Fin (attention_as_read a Q K V off_z off_h m d))"
proof -
  from fwd_loop_closed [OF sc B P i row dv, of Q K V junk off_h off_z]
  obtain mx l A where st: "fwd_loop a Q K V junk start_m off_h off_z i = (Fin mx, Fin l, \<lambda>d. Fin (A d))"
    and l: "l * exp (mx * sm_scale a) = (\<Sum>n<n_keys a. F n)"
    and A: "\<And>d. A d * exp (mx * sm_scale a) = (\<Sum>n<n_keys a. F n * fwd_v_read a K V off_h off_z n d)"
    and at: "\<exists>n. unmasked a m n \<and> lg n = mx"
    and ub: "\<forall>n. unmasked a m n \<longrightarrow> lg n \<le> mx"
    unfolding m_def lg_def F_def by blast
  let ?E = "exp (mx * sm_scale a)" and ?Z = "\<Sum>n<n_keys a. F n"
  have E: "0 < ?E" by simp
  from at obtain n0 where n0: "unmasked a m n0" by blast
  then have "n0 < n_keys a" by (simp add: unmasked_def)
  then have Z: "0 < ?Z" unfolding F_def using n0 by (rule softmax_sum_pos)
  have lpos: "0 < l"
  proof (rule ccontr)
    assume "\<not> 0 < l"
    then have "l * ?E \<le> 0" using E by (simp add: mult_le_0_iff)
    with l Z show False by simp
  qed
  have lsum: "l = (\<Sum>n<n_keys a. if unmasked a m n then exp ((lg n - mx) * sm_scale a) else 0)"
  proof -
    have "(\<Sum>n<n_keys a. if unmasked a m n then exp ((lg n - mx) * sm_scale a) else 0) * ?E
        = (\<Sum>n<n_keys a. (if unmasked a m n then exp ((lg n - mx) * sm_scale a) else 0) * ?E)"
      by (rule sum_distrib_right)
    also have "\<dots> = ?Z"
      by (intro sum.cong refl)
        (simp add: F_def softmax_weight_def exp_add [symmetric] algebra_simps)
    finally have "(\<Sum>n<n_keys a. if unmasked a m n then exp ((lg n - mx) * sm_scale a) else 0) * ?E
        = l * ?E" using l by simp
    then show ?thesis using E by simp
  qed
  have L1: "fwd_l_row a Q K V junk start_m off_h off_z i = Fin (mx * sm_scale a + ln l)"
    using lpos by (simp add: fwd_l_row_def st)
  have L2: "mx * sm_scale a + ln l = ln ?Z"
  proof -
    have "ln ?Z = ln (l * ?E)" by (simp add: l)
    also have "\<dots> = ln l + ln ?E" using lpos E by (rule ln_mult_pos)
    finally show ?thesis by simp
  qed
  have O: "fwd_o_row a Q K V junk start_m off_h off_z i d
      = Fin (attention_as_read a Q K V off_z off_h m d)" for d
  proof -
    have "fwd_o_row a Q K V junk start_m off_h off_z i d = Fin (A d * (1 / l))"
      using lpos by (simp add: fwd_o_row_def st)
    also have "A d * (1 / l) = (A d * ?E) / (l * ?E)" using E lpos by simp
    also have "\<dots> = attention_as_read a Q K V off_z off_h m d"
      unfolding A l by (simp add: attention_as_read_def softmax_out_def F_def lg_def)
    finally show ?thesis .
  qed
  from st lpos at ub lsum L1 L2 O show ?thesis by blast
qed

text \<open>With the same strides of axes 2 and 3 for K and V, the forward kernel reads the
  logical elements.\<close>

lemma fwd_read_same_layout:
  assumes "stride_n K = stride_n V" "stride_k K = stride_k V" "0 < BLOCK_N a"
  shows "fwd_k_read a K V h z n d = elem K z h n d" "fwd_v_read a K V h z n d = elem V z h n d"
proof -
  have "int (n div BLOCK_N a * BLOCK_N a) + int (n mod BLOCK_N a) = int n"
    by (simp only: of_nat_add [symmetric]) simp
  then have n: "int (n div BLOCK_N a * BLOCK_N a) * s + int (n mod BLOCK_N a) * s = int n * s" for s :: int
    by (simp only: distrib_right [symmetric])
  show "fwd_k_read a K V h z n d = elem K z h n d"
    using n [of "stride_n V"] assms(1,2)
    by (simp add: fwd_k_read_def fwd_k_ptrs_def elem_def algebra_simps)
  show "fwd_v_read a K V h z n d = elem V z h n d"
    using n [of "stride_n V"] assms(1,2)
    by (simp add: fwd_v_read_def fwd_v_ptrs_def elem_def algebra_simps)
qed

lemma attention_same_layout:
  assumes "stride_n K = stride_n V" "stride_k K = stride_k V" "0 < BLOCK_N a"
  shows "attention_as_read a Q K V z h m d = attention_ref a Q K V z h m d"
  by (simp add: attention_as_read_def attention_ref_def fwd_logit_def qk_dot_def
      fwd_read_same_layout [OF assms])

lemma sum_lessThan_2: "(\<Sum>n<(2::nat). f n) = f 0 + f 1"
  by (simp add: numeral_2_eq_2)

lemma sum_lessThan_3: "(\<Sum>n<(3::nat). f n) = f 0 + f 1 + f 2"
proof -
  have "(\<Sum>n<Suc (Suc (Suc 0)). f n) = f 0 + f (Suc 0) + f (Suc (Suc 0))" by simp
  then show ?thesis unfolding numeral_3_eq_3 numeral_2_eq_2 One_nat_def .
qed

lemma c1_launch_eq:
  "c1_launch = \<lparr>sm_scale = 1 / sqrt 16, nheads = 2, N_CTX = 2, P_SEQ = 0, BLOCK_M = 128,
      BLOCK_DMODEL = 16, BLOCK_N = 64, CAUSAL = False, DIVISIBLE_M = False, DIVISIBLE_N = False\<rparr>"
  by (simp add: c1_launch_def fwd_launch_def fwd_config_def Let_def c1_q_def c1_k_def BHTD_def)

text \<open>The probability of a visited cell, for a row in range.\<close>

lemma fwd_p_value:
  fixes a :: launch and Q K V :: tensor and junk :: "int \<Rightarrow> real" and start_m off_h off_z i :: nat
  assumes sc: "0 < sm_scale a" and B: "0 < BLOCK_N a" and P: "0 \<le> P_SEQ a" and i: "i < BLOCK_M a"
    and row: "offs_m a start_m i < N_CTX a"
    and dv: "DIVISIBLE_N a \<longrightarrow> BLOCK_N a dvd n_keys a"
    and k: "k < n_tiles (fwd_hi a start_m) (BLOCK_N a)" and j: "j < BLOCK_N a"
  defines "m \<equiv> offs_m a start_m i"
  defines "F \<equiv> softmax_weight (unmasked a m) (\<lambda>n. fwd_logit a Q K V off_z off_h m n * sm_scale a)"
  shows "fwd_p a Q K V junk start_m off_h off_z (k * BLOCK_N a) i j
           = Fin (F (k * BLOCK_N a + j) / (\<Sum>n<n_keys a. F n))"
proof -
  from fwd_loop_closed [OF sc B P i row dv, of Q K V junk off_h off_z]
  obtain mx l A where st: "fwd_loop a Q K V junk start_m off_h off_z i = (Fin mx, Fin l, \<lambda>d. Fin (A d))"
    and l: "l * exp (mx * sm_scale a) = (\<Sum>n<n_keys a. F n)"
    and at: "\<exists>n. unmasked a m n \<and> fwd_logit a Q K V off_z off_h m n = mx"
    unfolding m_def F_def by blast
  from at obtain n0 where n0: "unmasked a m n0" by blast
  then have "n0 < n_keys a" by (simp add: unmasked_def)
  then have Z: "0 < (\<Sum>n<n_keys a. F n)" unfolding F_def using n0 by (rule softmax_sum_pos)
  have l0: "l \<noteq> 0" using l Z by auto
  have c: "0 < qk_scale a" using sc by (rule qk_scale_pos)
  let ?s = "fwd_s a Q K V junk start_m off_h off_z (k * BLOCK_N a) i j"
  have w: "wt (qk_scale a) ?s = F (k * BLOCK_N a + j)"
    unfolding F_def m_def fwd_cell(1) [OF B P row dv k j]
    by (simp add: wt_def softmax_weight_def exp2_qk_scale)
  have "fwd_p a Q K V junk start_m off_h off_z (k * BLOCK_N a) i j
      = Fin (wt (qk_scale a) ?s / exp2 (mx * qk_scale a) * (1 / l))"
    using l0 by (simp add: fwd_p_def st p_form [OF fwd_s_logit c])
  also have "wt (qk_scale a) ?s / exp2 (mx * qk_scale a) * (1 / l)
      = F (k * BLOCK_N a + j) / (l * exp (mx * sm_scale a))"
    by (simp add: w exp2_qk_scale mult.commute)
  finally show ?thesis by (simp only: l)
qed

lemma c3_launch_eq:
  "c3_launch = \<lparr>sm_scale = 1 / sqrt 16, nheads = 2, N_CTX = 3, P_SEQ = 0, BLOCK_M = 64,
      BLOCK_DMODEL = 16, BLOCK_N = 64, CAUSAL = True, DIVISIBLE_M = False, DIVISIBLE_N = False\<rparr>"
  by (simp add: c3_launch_def fwd_launch_def fwd_config_def Let_def c3_q_def c3_k_def BHTD_def BTHD_def)

section \<open>Stores of a grid\<close>

lemma count_launch_grid:
  "length (filter P (launch_grid (T, H, Z) kern))
     = (\<Sum>z\<leftarrow>[0..<Z]. \<Sum>h\<leftarrow>[0..<H]. \<Sum>t\<leftarrow>[0..<T]. length (filter P (kern t h z)))"
  by (simp add: launch_grid_def filter_concat length_concat comp_def)

lemma sum_list_pick:
  fixes f :: "nat \<Rightarrow> nat"
  assumes "a < n"
  shows "(\<Sum>x\<leftarrow>[0..<n]. if x = a then f x else 0) = f a"
proof -
  have "(\<Sum>x\<leftarrow>[0..<n]. if x = a then f x else 0) = (\<Sum>x\<in>set [0..<n]. if x = a then f x else 0)"
    by (intro sum_list_distinct_conv_sum_set) simp
  also have "\<dots> = f a" using assms by (simp add: sum.delta)
  finally show ?thesis .
qed

lemma length_filter_upt_one:
  assumes "i0 < n" "\<And>i. i < n \<Longrightarrow> P i = (i = i0)"
  shows "length (filter P [0..<n]) = 1"
proof -
  have "filter P [0..<n] = filter (\<lambda>i. i = i0) [0..<n]"
    using assms(2) by (intro filter_cong refl) simp
  also have "length \<dots> = (\<Sum>x\<leftarrow>[0..<n]. if x = i0 then 1 else 0)"
    by (simp add: sum_list_map_filter' [symmetric] sum_list_triv)
  also have "\<dots> = 1" using sum_list_pick [OF assms(1), of "\<lambda>_. 1"] by simp
  finally show ?thesis .
qed

lemma length_filter_upt_none:
  assumes "\<And>i. i < n \<Longrightarrow> \<not> P i"
  shows "length (filter P [0..<n]) = 0"
  using assms by (simp add: filter_empty_conv)

text \<open>
  A kernel whose instance \<open>(t, h, z)\<close> stores one value per unmasked lane \<open>i\<close> at the offset
  \<open>(z * H + h) * M + (t * B + i)\<close> of a contiguous \<open>(Z, H, M)\<close> tensor, with a mask that lets
  through exactly the rows below \<open>M\<close>: on the grid \<open>(T, H, Z)\<close> every element is stored
  exactly once, and nothing else is stored.
\<close>

lemma grid_stores_once:
  fixes val :: "nat \<Rightarrow> nat \<Rightarrow> nat \<Rightarrow> nat \<Rightarrow> 'v"
  assumes kern: "\<And>t h z. kern t h z
            = map (\<lambda>i. (int ((z * H + h) * M + (t * B + i)), val t h z i)) (filter (msk t) [0..<B])"
    and lt: "\<And>t i. t < T \<Longrightarrow> i < B \<Longrightarrow> msk t i \<Longrightarrow> t * B + i < M"
    and inr: "\<And>t i. i < B \<Longrightarrow> t * B + i < M \<Longrightarrow> msk t i"
    and T: "\<And>m. m < M \<Longrightarrow> m div B < T" and B: "0 < B"
    and z0: "z0 < Z" and h0: "h0 < H" and m0: "m0 < M"
  shows "length (filter (\<lambda>s. fst s = int ((z0 * H + h0) * M + m0)) (launch_grid (T, H, Z) kern)) = 1"
    and "(int ((z0 * H + h0) * M + m0), val (m0 div B) h0 z0 (m0 mod B)) \<in> set (launch_grid (T, H, Z) kern)"
    and "\<forall>s\<in>set (launch_grid (T, H, Z) kern). \<exists>z<Z. \<exists>h<H. \<exists>m<M. fst s = int ((z * H + h) * M + m)"
proof -
  define A where "A = int ((z0 * H + h0) * M + m0)"
  define Pa :: "int \<times> 'v \<Rightarrow> bool" where "Pa = (\<lambda>s. fst s = A)"
  define t0 i0 where "t0 = m0 div B" and "i0 = m0 mod B"
  define c :: "nat \<Rightarrow> nat \<Rightarrow> nat \<Rightarrow> nat" where
    "c = (\<lambda>t h z. length (filter Pa (kern t h z)))"
  have i0: "i0 < B" using B by (simp add: i0_def)
  have m0': "t0 * B + i0 = m0" by (simp add: t0_def i0_def)
  have t0: "t0 < T" unfolding t0_def using m0 by (rule T)
  have P0: "msk t0 i0" using inr [OF i0, of t0] m0 by (simp only: m0')
  have eq: "z = z0 \<and> h = h0 \<and> t = t0 \<and> i = i0"
    if t: "t < T" and h: "h < H" and i: "i < B" and mk: "msk t i"
      and e: "int ((z * H + h) * M + (t * B + i)) = A" for t h z i
  proof -
    from lt [OF t i mk] have m: "t * B + i < M" .
    from e have "(z * H + h) * M + (t * B + i) = (z0 * H + h0) * M + m0"
      unfolding A_def by (simp only: of_nat_eq_iff)
    from radix_unique [OF this m m0] have 1: "z * H + h = z0 * H + h0" "t * B + i = m0" by simp_all
    from radix_unique [OF 1(1) h h0] have 2: "z = z0" "h = h0" by simp_all
    from 1(2) m0' have "t * B + i = t0 * B + i0" by simp
    from radix_unique [OF this i i0] 2 show ?thesis by simp
  qed
  have len: "c t h z = length (filter (\<lambda>i. msk t i \<and> int ((z * H + h) * M + (t * B + i)) = A) [0..<B])"
    for t h z
    unfolding c_def Pa_def kern by (simp add: filter_map comp_def conj_commute)
  have c1: "c t0 h0 z0 = 1"
  proof -
    have "(msk t0 i \<and> int ((z0 * H + h0) * M + (t0 * B + i)) = A) = (i = i0)" if "i < B" for i
    proof
      assume "msk t0 i \<and> int ((z0 * H + h0) * M + (t0 * B + i)) = A"
      with eq [OF t0 h0 that, of z0] show "i = i0" by blast
    next
      assume "i = i0"
      with P0 show "msk t0 i \<and> int ((z0 * H + h0) * M + (t0 * B + i)) = A"
        unfolding A_def by (simp only: m0')
    qed
    from length_filter_upt_one [OF i0 this] show ?thesis unfolding len .
  qed
  have c0: "c t h z = 0" if "t < T" "h < H" "\<not> (z = z0 \<and> h = h0 \<and> t = t0)" for t h z
  proof -
    have "\<not> (msk t i \<and> int ((z * H + h) * M + (t * B + i)) = A)" if "i < B" for i
      using eq [OF \<open>t < T\<close> \<open>h < H\<close> that, of z] \<open>\<not> (z = z0 \<and> h = h0 \<and> t = t0)\<close> by blast
    from length_filter_upt_none [of B "\<lambda>i. msk t i \<and> int ((z * H + h) * M + (t * B + i)) = A", OF this]
    show ?thesis unfolding len .
  qed
  have st: "(\<Sum>t\<leftarrow>[0..<T]. c t h z) = (if z = z0 \<and> h = h0 then 1 else 0)" if h: "h < H" for h z
  proof -
    have "map (\<lambda>t. c t h z) [0..<T] = map (\<lambda>t. if t = t0 then (if z = z0 \<and> h = h0 then 1 else 0) else 0) [0..<T]"
    proof (intro map_cong refl)
      fix t assume "t \<in> set [0..<T]"
      then have t: "t < T" by simp
      show "c t h z = (if t = t0 then (if z = z0 \<and> h = h0 then 1 else 0) else 0)"
      proof (cases "z = z0 \<and> h = h0 \<and> t = t0")
        case True
        with c1 show ?thesis by simp
      next
        case False
        with c0 [OF t h False] show ?thesis by auto
      qed
    qed
    then have "(\<Sum>t\<leftarrow>[0..<T]. c t h z) = (\<Sum>t\<leftarrow>[0..<T]. if t = t0 then (if z = z0 \<and> h = h0 then 1 else 0) else 0)"
      by (simp only:)
    also have "\<dots> = (if z = z0 \<and> h = h0 then 1 else 0)"
      by (rule sum_list_pick [OF t0])
    finally show ?thesis .
  qed
  have sh: "(\<Sum>h\<leftarrow>[0..<H]. \<Sum>t\<leftarrow>[0..<T]. c t h z) = (if z = z0 then 1 else 0)" for z
  proof -
    have "map (\<lambda>h. \<Sum>t\<leftarrow>[0..<T]. c t h z) [0..<H] = map (\<lambda>h. if h = h0 then (if z = z0 then 1 else 0) else 0) [0..<H]"
      by (intro map_cong refl) (simp add: st)
    then have "(\<Sum>h\<leftarrow>[0..<H]. \<Sum>t\<leftarrow>[0..<T]. c t h z)
        = (\<Sum>h\<leftarrow>[0..<H]. if h = h0 then (if z = z0 then 1 else 0) else 0)"
      by (simp only:)
    also have "\<dots> = (if z = z0 then 1 else 0)" by (rule sum_list_pick [OF h0])
    finally show ?thesis .
  qed
  have "length (filter Pa (launch_grid (T, H, Z) kern)) = (\<Sum>z\<leftarrow>[0..<Z]. \<Sum>h\<leftarrow>[0..<H]. \<Sum>t\<leftarrow>[0..<T]. c t h z)"
    unfolding c_def by (rule count_launch_grid)
  also have "\<dots> = (\<Sum>z\<leftarrow>[0..<Z]. if z = z0 then 1 else 0)" by (simp only: sh)
  also have "\<dots> = 1" by (rule sum_list_pick [OF z0])
  finally show "length (filter (\<lambda>s. fst s = int ((z0 * H + h0) * M + m0)) (launch_grid (T, H, Z) kern)) = 1"
    unfolding Pa_def A_def .
  have "(int ((z0 * H + h0) * M + (t0 * B + i0)), val t0 h0 z0 i0) \<in> set (kern t0 h0 z0)"
    unfolding kern using i0 P0 by auto
  then have "(int ((z0 * H + h0) * M + m0), val t0 h0 z0 i0) \<in> set (launch_grid (T, H, Z) kern)"
    unfolding set_launch_grid m0' using z0 h0 t0 by blast
  then show "(int ((z0 * H + h0) * M + m0), val (m0 div B) h0 z0 (m0 mod B)) \<in> set (launch_grid (T, H, Z) kern)"
    unfolding t0_def i0_def .
  show "\<forall>s\<in>set (launch_grid (T, H, Z) kern). \<exists>z<Z. \<exists>h<H. \<exists>m<M. fst s = int ((z * H + h) * M + m)"
  proof
    fix s assume "s \<in> set (launch_grid (T, H, Z) kern)"
    then obtain z h t where s: "z < Z" "h < H" "t < T" "s \<in> set (kern t h z)"
      unfolding set_launch_grid by blast
    from s(4) obtain i where i: "i < B" "msk t i" "fst s = int ((z * H + h) * M + (t * B + i))"
      unfolding kern by auto
    from lt [OF s(3) i(1,2)] i(3) s(1,2) show "\<exists>z<Z. \<exists>h<H. \<exists>m<M. fst s = int ((z * H + h) * M + m)"
      by blast
  qed
qed

text \<open>The boundary mask on rows lets through the rows below \<open>M\<close>, on the grid of
  \<open>cdiv M BLOCK_M\<close> blocks.\<close>

lemma cdiv_div:
  assumes B: "0 < B" and m: "m < M"
  shows "m div B < cdiv M B"
proof -
  have "m div B \<le> (M - 1) div B" using m by (intro div_le_mono) simp
  moreover have "M + B - 1 = (M - 1) + B" using m by simp
  then have "(M + B - 1) div B = Suc ((M - 1) div B)" using B by (simp only: div_add_self2)
  ultimately show ?thesis by (simp add: cdiv_def)
qed

lemma cdiv_dvd: "0 < B \<Longrightarrow> B dvd M \<Longrightarrow> cdiv M B = M div B"
proof -
  assume B: "0 < B" and d: "B dvd M"
  then obtain k where k: "M = k * B" by (auto simp: dvd_def mult.commute)
  have "k * B + B - 1 = (B - 1) + k * B" using B by simp
  then have "(k * B + B - 1) div B = (B - 1) div B + k" using B by (simp only: div_mult_self1)
  then show ?thesis using B by (simp add: cdiv_def k)
qed

lemma row_mask_lt:
  assumes B: "0 < BLOCK_M a" and dm: "DIVISIBLE_M a = (N_CTX a mod BLOCK_M a = 0)"
    and t: "t < cdiv (N_CTX a) (BLOCK_M a)" and i: "i < BLOCK_M a" and m: "fwd_mask_m a t i"
  shows "t * BLOCK_M a + i < N_CTX a"
proof (cases "DIVISIBLE_M a")
  case True
  with dm have "BLOCK_M a dvd N_CTX a" by (simp add: dvd_eq_mod_eq_0)
  with t B have "t < N_CTX a div BLOCK_M a" by (simp add: cdiv_dvd)
  then have "Suc t * BLOCK_M a \<le> N_CTX a div BLOCK_M a * BLOCK_M a" by (intro mult_le_mono1) simp
  also have "\<dots> \<le> N_CTX a" by simp
  finally show ?thesis using i by simp
next
  case False
  with m i show ?thesis by (auto simp: fwd_mask_m_def offs_m_def split: if_splits)
qed

lemma fwd_config_pos: "0 < fst (fwd_config c causal Dk M)" "0 < snd (fwd_config c causal Dk M)"
  by (simp_all add: fwd_config_def)

lemma bwd_config_pos: "0 < fst (bwd_config c causal D)" "0 < snd (bwd_config c causal D)"
  by (simp_all add: bwd_config_def)

lemma fwd_launch_fields:
  "nheads (fwd_launch c q k causal scale) = dim_h q"
  "N_CTX (fwd_launch c q k causal scale) = dim_n q"
  "P_SEQ (fwd_launch c q k causal scale) = int (dim_n k) - int (dim_n q)"
  "CAUSAL (fwd_launch c q k causal scale) = causal"
  "BLOCK_DMODEL (fwd_launch c q k causal scale) = dim_k q"
  "sm_scale (fwd_launch c q k causal scale) = (case scale of None \<Rightarrow> 1 / sqrt (real (dim_k q)) | Some s \<Rightarrow> s)"
  by (simp_all add: fwd_launch_def Let_def)

lemma fwd_launch_ok:
  assumes "0 < dim_k q" "case scale of None \<Rightarrow> True | Some s \<Rightarrow> 0 < s" "dim_n q \<le> dim_n k"
  shows "launch_ok (fwd_launch c q k causal scale)"
proof -
  have "n_keys (fwd_launch c q k causal scale) = dim_n k"
    using assms(3) by (simp add: n_keys_def fwd_launch_def Let_def)
  then show ?thesis
    using assms fwd_config_pos [of c causal "dim_k k" "dim_n q"]
    by (simp add: launch_ok_def fwd_launch_def Let_def split: option.splits)
qed

lemma bwd_launch_fields:
  "nheads (bwd_launch c ctx q k) = dim_h q"
  "N_CTX (bwd_launch c ctx q k) = dim_n q"
  "BLOCK_DMODEL (bwd_launch c ctx q k) = dim_k q"
  "0 < BLOCK_M (bwd_launch c ctx q k)"
  "DIVISIBLE_M (bwd_launch c ctx q k) = (dim_n q mod BLOCK_M (bwd_launch c ctx q k) = 0)"
  using bwd_config_pos [of c "CAUSAL ctx" "dim_k q"] by (simp_all add: bwd_launch_def Let_def)

lemma bwd_launch_dm:
  "DIVISIBLE_M (bwd_launch c ctx q k)
     = (N_CTX (bwd_launch c ctx q k) mod BLOCK_M (bwd_launch c ctx q k) = 0)"
  by (simp add: bwd_launch_def Let_def)

lemma row_mask_in: "i < BLOCK_M a \<Longrightarrow> t * BLOCK_M a + i < N_CTX a \<Longrightarrow> fwd_mask_m a t i"
  by (simp add: fwd_mask_m_def offs_m_def)

lemma launch_ok_dv: "launch_ok a \<Longrightarrow> DIVISIBLE_N a \<longrightarrow> BLOCK_N a dvd n_keys a"
  by (simp add: launch_ok_def dvd_eq_mod_eq_0)

text \<open>The forward kernel on its grid: the stores to \<open>L\<close>.\<close>

lemma fwd_L_grid:
  fixes a :: launch and Q K V :: tensor and junk :: "int \<Rightarrow> real"
  assumes B: "0 < BLOCK_M a" and dm: "DIVISIBLE_M a = (N_CTX a mod BLOCK_M a = 0)"
    and z: "z < Z" and h: "h < nheads a" and m: "m < N_CTX a"
  defines "S \<equiv> launch_grid (cdiv (N_CTX a) (BLOCK_M a), nheads a, Z) (fwd_kernel_L a Q K V junk)"
  shows "length (filter (\<lambda>s. fst s = int ((z * nheads a + h) * N_CTX a + m)) S) = 1"
    and "(int ((z * nheads a + h) * N_CTX a + m),
          fwd_l_row a Q K V junk (m div BLOCK_M a) h z (m mod BLOCK_M a)) \<in> set S"
    and "\<forall>s\<in>set S. \<exists>z'<Z. \<exists>h'<nheads a. \<exists>m'<N_CTX a. fst s = int ((z' * nheads a + h') * N_CTX a + m')"
proof -
  let ?B = "BLOCK_M a" and ?M = "N_CTX a" and ?H = "nheads a"
  let ?val = "\<lambda>t h z i. fwd_l_row a Q K V junk t h z i"
  have kern: "fwd_kernel_L a Q K V junk t h z
      = map (\<lambda>i. (int ((z * ?H + h) * ?M + (t * ?B + i)), ?val t h z i)) (filter (fwd_mask_m a t) [0..<?B])"
    for t h z
    by (simp add: fwd_kernel_L_def l_ptrs_def offs_m_def)
  have lt: "t * ?B + i < ?M" if "t < cdiv ?M ?B" "i < ?B" "fwd_mask_m a t i" for t i
    using B dm that by (rule row_mask_lt)
  have inr: "fwd_mask_m a t i" if "i < ?B" "t * ?B + i < ?M" for t i
    using that by (rule row_mask_in)
  have T: "m' div ?B < cdiv ?M ?B" if "m' < ?M" for m'
    using B that by (rule cdiv_div)
  note once = grid_stores_once [of "fwd_kernel_L a Q K V junk"
      ?H ?M ?B ?val "fwd_mask_m a" "cdiv ?M ?B", OF kern lt inr T B z h m]
  from once show "length (filter (\<lambda>s. fst s = int ((z * ?H + h) * ?M + m)) S) = 1"
    and "(int ((z * ?H + h) * ?M + m), fwd_l_row a Q K V junk (m div ?B) h z (m mod ?B)) \<in> set S"
    and "\<forall>s\<in>set S. \<exists>z'<Z. \<exists>h'<?H. \<exists>m'<?M. fst s = int ((z' * ?H + h') * ?M + m')"
    unfolding S_def by blast+
qed

lemma stores_to_single:
  assumes "length (filter (\<lambda>s. fst s = p) sts) = 1" and "(p, v) \<in> set sts"
  shows "stores_to p sts = [(p, v)]"
proof -
  from assms(1) obtain x where x: "filter (\<lambda>s. fst s = p) sts = [x]"
    by (cases "filter (\<lambda>s. fst s = p) sts") auto
  from assms(2) have "(p, v) \<in> set (filter (\<lambda>s. fst s = p) sts)" by simp
  with x have "x = (p, v)" by simp
  with x show ?thesis by (simp add: stores_to_def)
qed

lemma sum_one_at_0:
  "(\<Sum>d<(16::nat). one_at 0 (int d) * f d) = f 0"
proof -
  have "(\<Sum>d<(16::nat). one_at 0 (int d) * f d) = (\<Sum>d<(16::nat). if d = 0 then f d else 0)"
    by (intro sum.cong refl) (simp add: one_at_def)
  then show ?thesis by (simp add: sum.delta)
qed

section \<open>32-bit offsets and float32 numbers\<close>

lemma wrap_int_id:
  assumes "- (2 ^ (w - 1)) \<le> x" "x < 2 ^ (w - 1)" "0 < w"
  shows "wrap_int w x = x"
proof -
  from assms(3) have "(2::int) ^ w = 2 * 2 ^ (w - 1)" by (cases w) simp_all
  with assms(1,2) have "0 \<le> x + 2 ^ (w - 1)" "x + 2 ^ (w - 1) < 2 ^ w" by simp_all
  then have "(x + 2 ^ (w - 1)) mod 2 ^ w = x + 2 ^ (w - 1)" by (rule mod_pos_pos_trivial)
  then show ?thesis by (simp add: wrap_int_def)
qed

lemma wrap_int_small:
  assumes "0 \<le> x" "x < 2 ^ 31" "w = 32 \<or> w = 64"
  shows "wrap_int w x = x"
proof -
  from assms(3) have "(2::int) ^ 31 \<le> 2 ^ (w - 1)" by (auto intro!: power_increasing)
  with assms(1,2) have "- (2 ^ (w - 1)) \<le> x" "x < 2 ^ (w - 1)" by simp_all
  then show ?thesis using assms(3) by (intro wrap_int_id) auto
qed

lemma idx_mul_small: "0 \<le> x * s \<Longrightarrow> x * s < 2 ^ 31 \<Longrightarrow> idx_mul x s = x * s"
  unfolding idx_mul_def by (rule wrap_int_small) (simp_all add: arg_bits_def)

lemma idx_add_small:
  assumes "0 \<le> x * s" "0 \<le> y * t" "x * s + y * t < 2 ^ 31"
  shows "idx_add x s y t = x * s + y * t"
proof -
  have 1: "idx_mul x s = x * s" using assms by (intro idx_mul_small) simp_all
  have 2: "idx_mul y t = y * t" using assms by (intro idx_mul_small) simp_all
  show ?thesis unfolding idx_add_def 1 2
    using assms by (intro wrap_int_small) (simp_all add: arg_bits_def max_def)
qed

lemma idx_mul_0 [simp]: "idx_mul 0 s = 0"
  unfolding idx_mul_def by (simp add: wrap_int_id arg_bits_def)

lemma idx_add_0 [simp]: "idx_add 0 s 0 t = 0"
  unfolding idx_add_def by (simp add: wrap_int_id arg_bits_def max_def)

lemma f32_0 [simp]: "f32 0 = Fin 0"
  by (simp add: f32_def)

lemma f32_add_0 [simp]: "f32_add (Fin 0) (Fin 0) = Fin 0"
  by (simp add: f32_add_def)

lemma f32_mul_0 [simp]: "f32_mul (Fin 0) (Fin 0) = Fin 0"
  by (simp add: f32_mul_def)

lemma tl_sum_f32_zero: "(\<And>d. d \<in> set (lanes s) \<Longrightarrow> f d = Fin 0) \<Longrightarrow> tl_sum_f32 s f = Fin 0"
  by (induction s) simp_all

lemma tl_sum_f32_cong:
  "(\<And>d. d \<in> set (lanes s) \<Longrightarrow> f d = g d) \<Longrightarrow> tl_sum_f32 s f = tl_sum_f32 s g"
  by (induction s) simp_all

lemma tl_sum_f32_exact:
  "exact_sum s g \<Longrightarrow> tl_sum_f32 s (\<lambda>d. Fin (g d)) = Fin (sum_list (map g (lanes s)))"
  by (induction s) (simp_all add: f32_add_def is_f32_def)

lemma reduces_sum: "reduces s n \<Longrightarrow> sum_list (map g (lanes s)) = (\<Sum>d<n. g d)"
  by (simp add: reduces_def sum_list_distinct_conv_sum_set)

lemma lanes_tree_sched: "lanes (tree_sched k lo) = [lo..<lo + 2 ^ k]"
proof (induction k arbitrary: lo)
  case 0
  show ?case by (simp add: upt_rec)
next
  case (Suc k)
  have "[lo..<lo + 2 ^ k + 2 ^ k] = [lo..<lo + 2 ^ k] @ [lo + 2 ^ k..<lo + 2 ^ k + 2 ^ k]"
    by (rule upt_add_eq_append) simp
  then show ?case by (simp add: Suc add.assoc mult_2)
qed

lemma reduces_tree_sched: "reduces (tree_sched k 0) (2 ^ k)"
  by (auto simp: reduces_def lanes_tree_sched)

lemma tree_sched_4:
  "tree_sched 4 0 =
     Add (Add (Add (Add (Lane 0) (Lane 1)) (Add (Lane 2) (Lane 3)))
              (Add (Add (Lane 4) (Lane 5)) (Add (Lane 6) (Lane 7))))
         (Add (Add (Add (Lane 8) (Lane 9)) (Add (Lane 10) (Lane 11)))
              (Add (Add (Lane 12) (Lane 13)) (Add (Lane 14) (Lane 15))))"
  by (simp add: eval_nat_numeral)

lemma tl_sum_f32_exact_products:
  assumes red: "reduces s n"
    and ex: "\<forall>d<n. is_f32 (x d) \<and> is_f32 (y d) \<and> is_f32 (x d * y d)"
    and sum: "exact_sum s (\<lambda>d. x d * y d)"
  shows "tl_sum_f32 s (\<lambda>d. f32_mul (f32 (x d)) (f32 (y d))) = Fin (\<Sum>d<n. x d * y d)"
proof -
  have "tl_sum_f32 s (\<lambda>d. f32_mul (f32 (x d)) (f32 (y d))) = tl_sum_f32 s (\<lambda>d. Fin (x d * y d))"
  proof (rule tl_sum_f32_cong)
    fix d assume "d \<in> set (lanes s)"
    with red have "d < n" by (auto simp: reduces_def)
    with ex show "f32_mul (f32 (x d)) (f32 (y d)) = Fin (x d * y d)"
      by (simp add: is_f32_def f32_mul_def)
  qed
  also have "\<dots> = Fin (sum_list (map (\<lambda>d. x d * y d) (lanes s)))"
    using sum by (rule tl_sum_f32_exact)
  also have "sum_list (map (\<lambda>d. x d * y d) (lanes s)) = (\<Sum>d<n. x d * y d)"
    using red by (rule reduces_sum)
  finally show ?thesis .
qed

lemma round_even_int [simp]: "round_even (of_int j) = j"
  by (simp add: round_even_def)

text \<open>The exponent: the one of the binade of \<open>x\<close>, for a normal \<open>x\<close>.\<close>

lemma f32_exp_from_eq:
  assumes "e0 \<le> e" "e - e0 \<le> int n" "e0 < e \<longrightarrow> 2 powi e \<le> a"
    and "e - e0 < int n \<longrightarrow> a < 2 powi (e + 1)"
  shows "f32_exp_from a e0 n = e"
  using assms
proof (induction n arbitrary: e0)
  case 0
  then show ?case by simp
next
  case (Suc n)
  show ?case
  proof (cases "e0 = e")
    case True
    with Suc.prems show ?thesis by simp
  next
    case False
    with Suc.prems have lt: "e0 < e" by simp
    with Suc.prems have le: "2 powi e \<le> a" by simp
    have "(2::real) powi (e0 + 1) \<le> 2 powi e" using lt by (intro power_int_increasing) simp_all
    with le have c: "2 powi (e0 + 1) \<le> a" by simp
    have "f32_exp_from a (e0 + 1) n = e"
      using Suc.prems lt le by (intro Suc.IH) simp_all
    with c show ?thesis by simp
  qed
qed

lemma f32_exp_eq:
  assumes "2 powi e \<le> \<bar>x\<bar>" "\<bar>x\<bar> < 2 powi (e + 1)" "- 126 \<le> e" "e \<le> 127"
  shows "f32_exp x = e"
  unfolding f32_exp_def using assms by (intro f32_exp_from_eq) simp_all

lemma f32_exp_from_le: "2 powi e0 \<le> a \<Longrightarrow> 2 powi (f32_exp_from a e0 n) \<le> a"
  by (induction n arbitrary: e0) simp_all

text \<open>A number \<open>n * 2 ^ k\<close> with \<open>\<bar>n\<bar> < 2 ^ 24\<close> and \<open>k \<le> 104\<close> is a float32.\<close>

lemma f32_exact:
  fixes n :: int and k :: nat
  assumes n: "\<bar>n\<bar> < 2 ^ 24" and k: "k \<le> 104"
  shows "f32 (of_int n * 2 ^ k) = Fin (of_int n * 2 ^ k)"
proof (cases "n = 0")
  case True
  then show ?thesis by simp
next
  case False
  define x :: real where "x = of_int n * 2 ^ k"
  have ax: "\<bar>x\<bar> = of_int \<bar>n\<bar> * 2 ^ k" by (simp add: x_def abs_mult)
  have "1 \<le> \<bar>n\<bar>" using False by simp
  then have "(1::real) \<le> of_int \<bar>n\<bar>" by linarith
  then have lo: "2 ^ k \<le> \<bar>x\<bar>" unfolding ax by (simp add: mult_le_cancel_right1)
  have "of_int \<bar>n\<bar> < (2::real) ^ 24" using n by (metis of_int_less_numeral_power_cancel_iff)
  then have hi: "\<bar>x\<bar> < 2 ^ (24 + k)" unfolding ax by (simp add: power_add)
  define e where "e = f32_exp x"
  have "(2::real) powi (- 126) \<le> 1" by (simp add: power_int_minus field_simps)
  also have "(1::real) \<le> 2 ^ k" by simp
  finally have "(2::real) powi (- 126) \<le> \<bar>x\<bar>" using lo by simp
  then have el: "2 powi e \<le> \<bar>x\<bar>" unfolding e_def f32_exp_def by (rule f32_exp_from_le)
  have "(2::real) ^ (24 + k) = 2 powi (int (24 + k))" by (simp only: power_int_of_nat)
  with el hi have "(2::real) powi e < 2 powi (int (24 + k))" by linarith
  then have "e < int (24 + k)"
  proof (rule contrapos_pp)
    assume "\<not> e < int (24 + k)"
    then have "(2::real) powi (int (24 + k)) \<le> 2 powi e" by (intro power_int_increasing) simp_all
    then show "\<not> (2::real) powi e < 2 powi (int (24 + k))" by simp
  qed
  then have e1: "e \<le> 23 + int k" by simp
  define j where "j = nat (int k - (e - 23))"
  have j: "int j = int k - (e - 23)" using e1 by (simp add: j_def)
  have p: "2 powi (e - 23) * 2 ^ j = (2::real) ^ k"
  proof -
    have "2 powi (e - 23) * (2::real) ^ j = 2 powi (e - 23) * 2 powi (int j)" by simp
    also have "\<dots> = 2 powi (e - 23 + int j)" by (simp add: power_int_add)
    also have "e - 23 + int j = int k" unfolding j by simp
    finally show ?thesis by simp
  qed
  have pq: "0 < (2::real) powi (e - 23)" by simp
  have "x / 2 powi (e - 23) = of_int n * 2 ^ j"
    unfolding x_def p [symmetric] using pq by simp
  also have "\<dots> = of_int (n * 2 ^ j)" by simp
  finally have d: "x / 2 powi (e - 23) = of_int (n * 2 ^ j)" .
  have y: "of_int (n * 2 ^ j) * 2 powi (e - 23) = x"
    using p by (simp add: x_def mult.assoc mult.commute)
  have "(2::real) ^ (24 + k) \<le> 2 ^ 128" using k by (intro power_increasing) simp_all
  with hi have b: "\<bar>x\<bar> < 2 ^ 128" by linarith
  have "x \<noteq> 0" using lo by (smt (verit) zero_less_power abs_zero)
  then have "f32 x = Fin x"
    unfolding f32_def e_def [symmetric] Let_def d round_even_int y using b by simp
  then show ?thesis by (simp only: x_def)
qed

lemma f32_int: "\<bar>n\<bar> < 2 ^ 24 \<Longrightarrow> f32 (of_int n) = Fin (of_int n)"
  using f32_exact [of n 0] by simp

lemma is_f32_int: "\<bar>n\<bar> < 2 ^ 24 \<Longrightarrow> is_f32 (of_int n)"
  by (simp add: is_f32_def f32_int)

text \<open>An odd number above \<open>2 ^ 25\<close> is no float32: it is rounded to a multiple of \<open>4\<close>.
  An odd number above \<open>2 ^ 24\<close> lies halfway between two float32 numbers.\<close>

lemma f32_example: "f32 62853137 = Fin 62853136"
proof -
  have "f32_exp 62853137 = 25"
    by (rule f32_exp_eq) simp_all
  moreover have "round_even (62853137 / 4) = 15713284"
  proof -
    have "\<lfloor>62853137 / 4 :: real\<rfloor> = 15713284" by linarith
    then show ?thesis by (simp add: round_even_def Let_def)
  qed
  ultimately show ?thesis by (simp add: f32_def Let_def)
qed

lemma f32_tie_example: "f32 29331465 = Fin 29331464"
proof -
  have "f32_exp 29331465 = 24"
    by (rule f32_exp_eq) simp_all
  moreover have "round_even (29331465 / 2) = 14665732"
  proof -
    have "\<lfloor>29331465 / 2 :: real\<rfloor> = 14665732" by linarith
    then show ?thesis by (simp add: round_even_def Let_def)
  qed
  ultimately show ?thesis by (simp add: f32_def Let_def)
qed

section \<open>The preprocess kernel\<close>

lemma launch_grid_cong:
  assumes "\<And>t h z. t < T \<Longrightarrow> h < H \<Longrightarrow> z < Z \<Longrightarrow> kern t h z = kern' t h z"
  shows "launch_grid (T, H, Z) kern = launch_grid (T, H, Z) kern'"
  unfolding launch_grid_def
  by (auto intro!: arg_cong [where f = concat] map_cong simp: assms)

lemma cdiv_tile_lt:
  assumes B: "0 < B" and t: "t < cdiv M B"
  shows "t * B < M"
proof -
  have "t \<le> (M + B - 1) div B - 1" using t by (simp add: cdiv_def)
  then have "t * B \<le> ((M + B - 1) div B - 1) * B" by (intro mult_le_mono1)
  also have "\<dots> = (M + B - 1) div B * B - B" by (simp add: diff_mult_distrib)
  also have "\<dots> \<le> (M + B - 1) - B" by (intro diff_le_mono) simp
  finally have "t * B \<le> M - 1" using B by simp
  moreover have "0 < M" using t B by (cases M) (simp_all add: cdiv_def)
  ultimately show ?thesis by simp
qed

text \<open>Row arithmetic of the preprocess kernel without wrap-around.\<close>

lemma pre_rows:
  assumes B: "0 < BLOCK_M a" and fit: "int (N_CTX a) + int (BLOCK_M a) \<le> 2 ^ 31"
    and t: "t < cdiv (N_CTX a) (BLOCK_M a)" and i: "i < BLOCK_M a"
  shows "pre_off_m a t i = int (t * BLOCK_M a + i)" and "pre_mask_m a t i = fwd_mask_m a t i"
proof -
  from cdiv_tile_lt [OF B t] have lt: "t * BLOCK_M a < N_CTX a" .
  define X where "X = int (t * BLOCK_M a)"
  have X: "0 \<le> X" "X + int (BLOCK_M a) < 2 ^ 31" "X + int i < 2 ^ 31"
    using lt fit i unfolding X_def by linarith+
  have "int t * int (BLOCK_M a) = X" by (simp add: X_def)
  then have b: "pre_off_m_base a t = X"
    unfolding pre_off_m_base_def using X by (simp add: wrap_int_id)
  have e: "wrap_int 32 (X + int (BLOCK_M a)) = X + int (BLOCK_M a)"
    using X by (intro wrap_int_id) simp_all
  have o': "pre_off_m a t i = X + int i"
    unfolding pre_off_m_def b using X by (intro wrap_int_id) simp_all
  then show o: "pre_off_m a t i = int (t * BLOCK_M a + i)" by (simp add: X_def)
  have "X + int (BLOCK_M a) = int (t * BLOCK_M a + BLOCK_M a)" "X + int i = int (t * BLOCK_M a + i)"
    by (simp_all add: X_def)
  then have c: "(int (N_CTX a) < X + int (BLOCK_M a)) = (N_CTX a < t * BLOCK_M a + BLOCK_M a)"
    "(X + int i < int (N_CTX a)) = (t * BLOCK_M a + i < N_CTX a)"
    by (simp_all only: of_nat_less_iff)
  show "pre_mask_m a t i = fwd_mask_m a t i"
    unfolding pre_mask_m_def o' b e c by (simp add: fwd_mask_m_def offs_m_def)
qed

text \<open>The preprocess kernel on its grid, for a contiguous \<open>Delta\<close> of at most \<open>2 ^ 31\<close>
  elements.\<close>

lemma bwd_preprocess_grid:
  fixes a :: launch and Out DO :: tensor and junk :: "int \<Rightarrow> real" and sched :: schedule
  assumes B: "0 < BLOCK_M a" and dm: "DIVISIBLE_M a = (N_CTX a mod BLOCK_M a = 0)"
    and rows: "int (N_CTX a) + int (BLOCK_M a) \<le> 2 ^ 31"
    and size: "int (Z * nheads a * N_CTX a) \<le> 2 ^ 31"
    and z: "z < Z" and h: "h < nheads a" and m: "m < N_CTX a"
  defines "S \<equiv> launch_grid (cdiv (N_CTX a) (BLOCK_M a), nheads a, Z)
                  (bwd_preprocess sched a Out DO (int (nheads a * N_CTX a), int (N_CTX a), 1) junk)"
  shows "length (filter (\<lambda>s. fst s = int ((z * nheads a + h) * N_CTX a + m)) S) = 1"
    and "(int ((z * nheads a + h) * N_CTX a + m),
          pre_delta sched a Out DO junk (m div BLOCK_M a) h z (m mod BLOCK_M a)) \<in> set S"
    and "\<forall>s\<in>set S. \<exists>z'<Z. \<exists>h'<nheads a. \<exists>m'<N_CTX a. fst s = int ((z' * nheads a + h') * N_CTX a + m')"
proof -
  let ?B = "BLOCK_M a" and ?M = "N_CTX a" and ?H = "nheads a"
  let ?val = "\<lambda>t h z i. pre_delta sched a Out DO junk t h z i"
  let ?kern = "\<lambda>t h z. map (\<lambda>i. (int ((z * ?H + h) * ?M + (t * ?B + i)), ?val t h z i))
                          (filter (fwd_mask_m a t) [0..<?B])"
  have lt: "t * ?B + i < ?M" if "t < cdiv ?M ?B" "i < ?B" "fwd_mask_m a t i" for t i
    using B dm that by (rule row_mask_lt)
  have inr: "fwd_mask_m a t i" if "i < ?B" "t * ?B + i < ?M" for t i
    using that by (rule row_mask_in)
  have T: "m' div ?B < cdiv ?M ?B" if "m' < ?M" for m'
    using B that by (rule cdiv_div)
  have ptr: "pre_d_ptrs a (int (?H * ?M), int ?M, 1) t h' z' i = int ((z' * ?H + h') * ?M + (t * ?B + i))"
    if t: "t < cdiv ?M ?B" and h': "h' < ?H" and z': "z' < Z" and i: "i < ?B" and mk: "fwd_mask_m a t i"
    for t h' z' i
  proof -
    from lt [OF t i mk] have r: "t * ?B + i < ?M" .
    have "z' * ?H + h' < Z * ?H"
    proof -
      have "z' * ?H + h' < z' * ?H + ?H" using h' by simp
      also have "\<dots> = Suc z' * ?H" by simp
      also have "\<dots> \<le> Z * ?H" using z' by (intro mult_le_mono1) simp
      finally show ?thesis .
    qed
    then have "Suc (z' * ?H + h') * ?M \<le> Z * ?H * ?M" by (intro mult_le_mono1) simp
    then have bound: "(z' * ?H + h') * ?M + ?M \<le> Z * ?H * ?M" by simp
    have zh: "int z' * int (?H * ?M) + int h' * int ?M = int ((z' * ?H + h') * ?M)"
      by (simp add: algebra_simps)
    have "int ((z' * ?H + h') * ?M) < 2 ^ 31"
    proof -
      have "(z' * ?H + h') * ?M < Z * ?H * ?M" using bound r by linarith
      then have "int ((z' * ?H + h') * ?M) < int (Z * ?H * ?M)" by (simp only: of_nat_less_iff)
      with size show ?thesis by linarith
    qed
    then have 1: "idx_add (int z') (int (?H * ?M)) (int h') (int ?M) = int ((z' * ?H + h') * ?M)"
      unfolding zh [symmetric] by (intro idx_add_small) simp_all
    have "int (t * ?B + i) < 2 ^ 31" using r rows by linarith
    then have 2: "idx_mul (int (t * ?B + i)) 1 = int (t * ?B + i)"
      by (intro idx_mul_small [THEN trans]) simp_all
    show ?thesis
      unfolding pre_d_ptrs_def fst_conv snd_conv pre_rows(1) [OF B rows t i] 1 2 by simp
  qed
  have kern: "bwd_preprocess sched a Out DO (int (?H * ?M), int ?M, 1) junk t h' z' = ?kern t h' z'"
    if t: "t < cdiv ?M ?B" and h': "h' < ?H" and z': "z' < Z" for t h' z'
  proof -
    have f: "filter (pre_mask_m a t) [0..<?B] = filter (fwd_mask_m a t) [0..<?B]"
      by (intro filter_cong refl) (simp add: pre_rows(2) [OF B rows t])
    have "(pre_d_ptrs a (int (?H * ?M), int ?M, 1) t h' z' i, ?val t h' z' i)
            = (int ((z' * ?H + h') * ?M + (t * ?B + i)), ?val t h' z' i)"
      if "i \<in> set (filter (fwd_mask_m a t) [0..<?B])" for i
      using that ptr [OF t h' z', of i] by simp
    then show ?thesis
      unfolding bwd_preprocess_def f by (intro map_cong refl)
  qed
  have S: "S = launch_grid (cdiv ?M ?B, ?H, Z) ?kern"
    unfolding S_def by (intro launch_grid_cong kern)
  note once = grid_stores_once [of ?kern ?H ?M ?B ?val "fwd_mask_m a" "cdiv ?M ?B", OF refl lt inr T B z h m]
  show "length (filter (\<lambda>s. fst s = int ((z * ?H + h) * ?M + m)) S) = 1"
    unfolding S by (rule once(1))
  show "(int ((z * ?H + h) * ?M + m), ?val (m div ?B) h z (m mod ?B)) \<in> set S"
    unfolding S by (rule once(2))
  show "\<forall>s\<in>set S. \<exists>z'<Z. \<exists>h'<?H. \<exists>m'<?M. fst s = int ((z' * ?H + h') * ?M + m')"
    unfolding S by (rule once(3))
qed

text \<open>The loads of a row below \<open>M\<close>, for a tensor whose offsets fit.\<close>

lemma pre_load_elem:
  fixes a :: launch and T :: tensor
  assumes B: "0 < BLOCK_M a" and rows: "int (N_CTX a) + int (BLOCK_M a) \<le> 2 ^ 31"
    and ad: "addressable T Z (nheads a) (N_CTX a) (BLOCK_DMODEL a)"
    and z: "z < Z" and h: "h < nheads a" and m: "m < N_CTX a" and d: "d < BLOCK_DMODEL a"
  shows "pre_load a T junk (m div BLOCK_M a) h z (m mod BLOCK_M a) d = f32 (elem T z h m d)"
proof -
  let ?B = "BLOCK_M a"
  have t: "m div ?B < cdiv (N_CTX a) ?B" using B m by (rule cdiv_div)
  have i: "m mod ?B < ?B" using B by simp
  have om: "pre_off_m a (m div ?B) (m mod ?B) = int m"
    unfolding pre_rows(1) [OF B rows t i] by simp
  have mk: "pre_mask_m a (m div ?B) (m mod ?B)"
    unfolding pre_rows(2) [OF B rows t i] using i m by (intro row_mask_in) simp_all
  from ad have s: "0 \<le> stride_z T" "0 \<le> stride_h T" "0 \<le> stride_n T" "0 \<le> stride_k T"
    and top: "int (Z - 1) * stride_z T + int (nheads a - 1) * stride_h T + int (N_CTX a - 1) * stride_n T
        + int (BLOCK_DMODEL a - 1) * stride_k T < 2 ^ 31"
    by (simp_all add: addressable_def)
  have le: "int z * stride_z T \<le> int (Z - 1) * stride_z T"
    "int h * stride_h T \<le> int (nheads a - 1) * stride_h T"
    "int m * stride_n T \<le> int (N_CTX a - 1) * stride_n T"
    "int d * stride_k T \<le> int (BLOCK_DMODEL a - 1) * stride_k T"
    using z h m d s by (auto intro!: mult_right_mono)
  have nn: "0 \<le> int z * stride_z T" "0 \<le> int h * stride_h T" "0 \<le> int m * stride_n T"
    "0 \<le> int d * stride_k T"
    using s by simp_all
  have nn': "0 \<le> int (Z - 1) * stride_z T" "0 \<le> int (nheads a - 1) * stride_h T"
    "0 \<le> int (N_CTX a - 1) * stride_n T" "0 \<le> int (BLOCK_DMODEL a - 1) * stride_k T"
    using s by simp_all
  have 1: "idx_add (int z) (stride_z T) (int h) (stride_h T) = int z * stride_z T + int h * stride_h T"
    using nn le nn' top by (intro idx_add_small) linarith+
  have 2: "idx_mul (int m) (stride_n T) = int m * stride_n T"
    using nn le nn' top by (intro idx_mul_small) linarith+
  have 3: "idx_mul (int d) (stride_k T) = int d * stride_k T"
    using nn le nn' top by (intro idx_mul_small) linarith+
  show ?thesis
    unfolding pre_load_def pre_ptrs_def om 1 2 3 using mk by (simp add: tl_load_def elem_def)
qed

lemma bwd_config_le: "fst (bwd_config c causal D) \<le> 128"
  by (simp add: bwd_config_def)

lemma bwd_launch_rows:
  assumes "int (dim_n q) + 128 \<le> 2 ^ 31"
  shows "int (N_CTX (bwd_launch c ctx q k)) + int (BLOCK_M (bwd_launch c ctx q k)) \<le> 2 ^ 31"
proof -
  have "BLOCK_M (bwd_launch c ctx q k) \<le> 128"
    using bwd_config_le [of c "CAUSAL ctx" "dim_k q"] by (simp add: bwd_launch_def Let_def)
  then have "int (BLOCK_M (bwd_launch c ctx q k)) \<le> 128" by linarith
  with assms show ?thesis by (simp add: bwd_launch_fields)
qed

text \<open>The value of a row below \<open>M\<close>, for tensors whose offsets fit.\<close>

lemma pre_delta_elem:
  fixes a :: launch and Out DO :: tensor
  assumes B: "0 < BLOCK_M a" and rows: "int (N_CTX a) + int (BLOCK_M a) \<le> 2 ^ 31"
    and ao: "addressable Out Z (nheads a) (N_CTX a) (BLOCK_DMODEL a)"
    and ad: "addressable DO Z (nheads a) (N_CTX a) (BLOCK_DMODEL a)"
    and red: "reduces sched (BLOCK_DMODEL a)"
    and z: "z < Z" and h: "h < nheads a" and m: "m < N_CTX a"
  shows "pre_delta sched a Out DO junk (m div BLOCK_M a) h z (m mod BLOCK_M a)
           = tl_sum_f32 sched (\<lambda>d. f32_mul (f32 (elem Out z h m d)) (f32 (elem DO z h m d)))"
  unfolding pre_delta_def
proof (rule tl_sum_f32_cong)
  fix d assume "d \<in> set (lanes sched)"
  with red have d: "d < BLOCK_DMODEL a" by (auto simp: reduces_def)
  show "f32_mul (pre_load a Out junk (m div BLOCK_M a) h z (m mod BLOCK_M a) d)
                (pre_load a DO junk (m div BLOCK_M a) h z (m mod BLOCK_M a) d)
          = f32_mul (f32 (elem Out z h m d)) (f32 (elem DO z h m d))"
    by (simp only: pre_load_elem [OF B rows ao z h m d] pre_load_elem [OF B rows ad z h m d])
qed

text \<open>The row of \<open>row_o\<close> and \<open>row_do\<close>: its sum in float32, on the balanced tree, and
  in the reals.\<close>

lemma row_sum_f32: "delta_f32 (tree_sched 4 0) row_o row_do 0 0 0 = Fin 62853136"
proof -
  have e: "f32 1 = Fin 1" "f32 2 = Fin 2" "f32 2047 = Fin 2047" "f32 4190209 = Fin 4190209"
    "f32 4190211 = Fin 4190211" "f32 8380418 = Fin 8380418" "f32 12570629 = Fin 12570629"
    "f32 16760836 = Fin 16760836"
    using f32_int [of 1] f32_int [of 2] f32_int [of 2047] f32_int [of 4190209] f32_int [of 4190211]
      f32_int [of 8380418] f32_int [of 12570629] f32_int [of 16760836]
    by simp_all
  have e2: "f32 33521672 = Fin 33521672" "f32 62853136 = Fin 62853136"
    using f32_exact [of 16760836 1] f32_exact [of 15713284 2] by simp_all
  have el: "elem row_o 0 0 0 d = (if d = 15 then 1 else 2047)"
    "elem row_do 0 0 0 d = (if d = 15 then 2 else 2047)" for d
    by (simp_all add: elem_def row_o_def row_do_def BHTD_def)
  show ?thesis
    unfolding delta_f32_def tree_sched_4 el
    by (simp add: f32_mul_def f32_add_def e e2 f32_tie_example)
qed

lemma row_sum_real: "delta_ref row_o row_do 16 0 0 0 = 62853137"
proof -
  have el: "elem row_o 0 0 0 d * elem row_do 0 0 0 d = (if d = 15 then 2 else 4190209)" for d
    by (simp add: elem_def row_o_def row_do_def BHTD_def)
  define g :: "nat \<Rightarrow> real" where "g = (\<lambda>d. if d = 15 then 2 else 4190209)"
  have "(16::nat) = Suc 15" by simp
  then have "(\<Sum>d<16. g d) = (\<Sum>d<15. g d) + g 15" by (simp only: sum.lessThan_Suc)
  also have "(\<Sum>d<15. g d) = (\<Sum>d<(15::nat). 4190209)"
    by (intro sum.cong refl) (simp add: g_def)
  also have "g 15 = 2" by (simp add: g_def)
  finally have "(\<Sum>d<16. g d) = 62853137" by simp
  then show ?thesis unfolding delta_ref_def el g_def .
qed

text \<open>
  Claim C10 says that for every batch \<open>b\<close>, head \<open>h\<close> and row \<open>m < M\<close> the preprocess
  kernel computes \<open>Delta[b, h, m]\<close>, the sum over \<open>d\<close> of \<open>O[b, h, m, d] * dO[b, h, m, d]\<close>
  accumulated in float32, and writes it exactly once. The kernel computes its offsets in
  32-bit integers. For the contiguous input \<open>big_o\<close> of \<open>2 ^ 28 + 1\<close> rows the offset
  \<open>2 ^ 28 * 16\<close> of the last row wraps to \<open>0\<close>, and the kernel loads row \<open>0\<close> in its place:
  the products of the last row sum to \<open>1\<close>, in the reals and in float32, and the one
  store to \<open>Delta[0, 0, 2 ^ 28]\<close> is \<open>0\<close>.
\<close>

theorem preprocess_offset_wraps:
  "delta_ref big_o big_o 16 0 0 268435456 = 1
   \<and> delta_f32 (tree_sched 4 0) big_o big_o 0 0 268435456 = Fin 1
   \<and> stores_to 268435456
        (delta_stores (backward rtx3090 (tree_sched 4 0) zeros zeros (ex_launch 268435457 0 False)
                  big_q big_q big_q big_o zeros big_o))
       = [(268435456, Fin 0)]"
proof -
  let ?a = "bwd_launch (8, 6) (ex_launch 268435457 0 False) big_q big_q"
  let ?r = "backward rtx3090 (tree_sched 4 0) zeros zeros (ex_launch 268435457 0 False)
                  big_q big_q big_q big_o zeros big_o"
  have a: "BLOCK_M ?a = 64" "N_CTX ?a = 268435457" "nheads ?a = 1" "BLOCK_DMODEL ?a = 16"
    "DIVISIBLE_M ?a = False"
    by (simp_all add: bwd_launch_def bwd_config_def Let_def ex_launch_def big_q_def BHTD_def)
  have el: "elem big_o 0 0 268435456 d = one_at 0 (int d)" for d
    by (simp add: elem_def big_o_def BHTD_def one_at_def)
  have 1: "delta_ref big_o big_o 16 0 0 268435456 = 1"
    unfolding delta_ref_def el sum_one_at_0 by (simp add: one_at_def)
  have v: "is_f32 0" "is_f32 1" using is_f32_int [of 0] is_f32_int [of 1] by simp_all
  have "delta_f32 (tree_sched 4 0) big_o big_o 0 0 268435456
      = Fin (delta_ref big_o big_o 16 0 0 268435456)"
    unfolding delta_f32_def delta_ref_def
  proof (rule tl_sum_f32_exact_products)
    show "reduces (tree_sched 4 0) 16" using reduces_tree_sched [of 4] by simp
    show "\<forall>d<16. is_f32 (elem big_o 0 0 268435456 d) \<and> is_f32 (elem big_o 0 0 268435456 d)
            \<and> is_f32 (elem big_o 0 0 268435456 d * elem big_o 0 0 268435456 d)"
      unfolding el using v by (simp add: one_at_def)
    show "exact_sum (tree_sched 4 0) (\<lambda>d. elem big_o 0 0 268435456 d * elem big_o 0 0 268435456 d)"
      unfolding el tree_sched_4 using v by (simp add: one_at_def)
  qed
  then have 2: "delta_f32 (tree_sched 4 0) big_o big_o 0 0 268435456 = Fin 1"
    by (simp only: 1)
  have fq: "dim_z big_q = 1" "dim_h big_q = 1" "dim_n big_q = 268435457"
    by (simp_all add: big_q_def BHTD_def)
  have "delta_stores ?r = launch_grid (cdiv (dim_n big_q) (BLOCK_M ?a), dim_h big_q, dim_z big_q)
                  (bwd_preprocess (tree_sched 4 0) ?a big_o big_o (delta_strides big_q) zeros)"
    by (simp add: backward_def Let_def rtx3090_def)
  then have ds: "delta_stores ?r = launch_grid (cdiv (N_CTX ?a) (BLOCK_M ?a), nheads ?a, 1)
                  (bwd_preprocess (tree_sched 4 0) ?a big_o big_o (int (nheads ?a * N_CTX ?a), int (N_CTX ?a), 1) zeros)"
    by (simp add: delta_strides_def fq a)
  have B: "0 < BLOCK_M ?a" and dm: "DIVISIBLE_M ?a = (N_CTX ?a mod BLOCK_M ?a = 0)"
    and rows: "int (N_CTX ?a) + int (BLOCK_M ?a) \<le> 2 ^ 31"
    and size: "int (1 * nheads ?a * N_CTX ?a) \<le> 2 ^ 31"
    and h: "0 < nheads ?a" and m: "268435456 < N_CTX ?a"
    by (simp_all add: a)
  note g = bwd_preprocess_grid [OF B dm rows size zero_less_one h m, of "tree_sched 4 0" big_o big_o zeros]
  have t: "268435456 div BLOCK_M ?a = 4194304" "268435456 mod BLOCK_M ?a = 0" by (simp_all add: a)
  have tt: "4194304 < cdiv (N_CTX ?a) (BLOCK_M ?a)" "0 < BLOCK_M ?a" by (simp_all add: a cdiv_def)
  have om: "pre_off_m ?a 4194304 0 = 268435456"
    unfolding pre_rows(1) [OF B rows tt] by (simp add: a)
  have w: "idx_mul 268435456 16 = 0"
    by (simp add: idx_mul_def arg_bits_def wrap_int_def)
  have ld: "pre_load ?a big_o zeros 4194304 0 0 0 d = Fin 0" if "d < 16" for d
  proof -
    have "idx_mul (int d) 1 = int d" using that by (intro idx_mul_small [THEN trans]) simp_all
    then have p: "pre_ptrs ?a big_o 4194304 0 0 0 d = int d"
      unfolding pre_ptrs_def om by (simp add: big_o_def BHTD_def w)
    have "int d \<noteq> 4294967296" using that by linarith
    then show ?thesis
      unfolding pre_load_def p by (simp add: tl_load_def big_o_def BHTD_def one_at_def zeros_def)
  qed
  have "pre_delta (tree_sched 4 0) ?a big_o big_o zeros 4194304 0 0 0 = Fin 0"
    unfolding pre_delta_def
    by (rule tl_sum_f32_zero) (simp add: lanes_tree_sched ld)
  with g(2) have 3: "(268435456, Fin 0) \<in> set (delta_stores ?r)"
    unfolding ds t by (simp add: a)
  from g(1) have 4: "length (filter (\<lambda>s. fst s = 268435456) (delta_stores ?r)) = 1"
    unfolding ds by (simp add: a)
  from 1 2 stores_to_single [OF 4 3] show ?thesis by blast
qed

text \<open>
  Claim C10, amended. Let the offsets fit in int32: O and dO are addressable,
  \<open>B * H * M \<le> 2 ^ 31\<close> and \<open>M + 128 \<le> 2 ^ 31\<close> (\<open>BLOCK_M\<close> is at most \<open>128\<close>). Then for
  every batch \<open>z\<close>, head \<open>h\<close> and row \<open>m < M\<close>, and for every order \<open>sched\<close> in which
  \<^verbatim>\<open>tl.sum\<close> adds each of the \<open>D\<close> lanes once, the grid that \<^verbatim>\<open>backward\<close> launches
  stores to \<open>Delta[z, h, m]\<close> the float32 sum, in that order, of the float32 products of
  \<open>O[z, h, m, d]\<close> and \<open>dO[z, h, m, d]\<close>; that store is its only store to \<open>Delta[z, h, m]\<close>,
  and it stores to no address that is not a row below \<open>M\<close>. When the elements and their
  products are float32 numbers and no addition rounds, the value stored is the sum over
  \<open>d\<close> of \<open>O[z, h, m, d] * dO[z, h, m, d]\<close>.
\<close>

theorem preprocess_delta:
  fixes q k v out do :: tensor and cap :: "nat \<Rightarrow> nat \<times> nat" and junk fresh L :: "int \<Rightarrow> real"
    and ctx :: launch and sched :: schedule
  assumes z: "z < dim_z q" and h: "h < dim_h q" and m: "m < dim_n q"
    and red: "reduces sched (dim_k q)"
    and rows: "int (dim_n q) + 128 \<le> 2 ^ 31"
    and size: "int (dim_z q * dim_h q * dim_n q) \<le> 2 ^ 31"
    and ao: "addressable out (dim_z q) (dim_h q) (dim_n q) (dim_k q)"
    and ad: "addressable do (dim_z q) (dim_h q) (dim_n q) (dim_k q)"
  defines "r \<equiv> backward cap sched junk fresh ctx q k v out L do"
  defines "addr \<equiv> \<lambda>z h m. int ((z * dim_h q + h) * dim_n q + m)"
  shows "stores_to (addr z h m) (delta_stores r) = [(addr z h m, delta_f32 sched out do z h m)]
       \<and> (\<forall>s\<in>set (delta_stores r). \<exists>z'<dim_z q. \<exists>h'<dim_h q. \<exists>m'<dim_n q. fst s = addr z' h' m')
       \<and> ((\<forall>d<dim_k q. is_f32 (elem out z h m d) \<and> is_f32 (elem do z h m d)
                        \<and> is_f32 (elem out z h m d * elem do z h m d))
            \<and> exact_sum sched (\<lambda>d. elem out z h m d * elem do z h m d)
          \<longrightarrow> delta_f32 sched out do z h m = Fin (delta_ref out do (dim_k q) z h m))"
proof -
  let ?a = "bwd_launch (cap (device q)) ctx q k"
  have ds: "delta_stores r = launch_grid (cdiv (N_CTX ?a) (BLOCK_M ?a), nheads ?a, dim_z q)
                  (bwd_preprocess sched ?a out do (int (nheads ?a * N_CTX ?a), int (N_CTX ?a), 1) junk)"
    by (simp add: r_def backward_def Let_def delta_strides_def bwd_launch_fields)
  have B: "0 < BLOCK_M ?a" by (rule bwd_launch_fields(4))
  have rows': "int (N_CTX ?a) + int (BLOCK_M ?a) \<le> 2 ^ 31" using rows by (rule bwd_launch_rows)
  have size': "int (dim_z q * nheads ?a * N_CTX ?a) \<le> 2 ^ 31" using size by (simp add: bwd_launch_fields)
  have h': "h < nheads ?a" and m': "m < N_CTX ?a" using h m by (simp_all add: bwd_launch_fields)
  have ao': "addressable out (dim_z q) (nheads ?a) (N_CTX ?a) (BLOCK_DMODEL ?a)"
    and ad': "addressable do (dim_z q) (nheads ?a) (N_CTX ?a) (BLOCK_DMODEL ?a)"
    and red': "reduces sched (BLOCK_DMODEL ?a)"
    using ao ad red by (simp_all add: bwd_launch_fields)
  note g = bwd_preprocess_grid [OF B bwd_launch_dm rows' size' z h' m', of sched out "do" junk]
  have val: "pre_delta sched ?a out do junk (m div BLOCK_M ?a) h z (m mod BLOCK_M ?a)
               = delta_f32 sched out do z h m"
    unfolding delta_f32_def using B rows' ao' ad' red' z h' m' by (rule pre_delta_elem)
  have mem: "(addr z h m, delta_f32 sched out do z h m) \<in> set (delta_stores r)"
    using g(2) unfolding val ds addr_def by (simp add: bwd_launch_fields)
  have cnt: "length (filter (\<lambda>s. fst s = addr z h m) (delta_stores r)) = 1"
    using g(1) unfolding ds addr_def by (simp add: bwd_launch_fields)
  have 1: "stores_to (addr z h m) (delta_stores r) = [(addr z h m, delta_f32 sched out do z h m)]"
    using cnt mem by (rule stores_to_single)
  have 2: "\<forall>s\<in>set (delta_stores r). \<exists>z'<dim_z q. \<exists>h'<dim_h q. \<exists>m'<dim_n q. fst s = addr z' h' m'"
    using g(3) unfolding ds addr_def by (simp add: bwd_launch_fields)
  have 3: "delta_f32 sched out do z h m = Fin (delta_ref out do (dim_k q) z h m)"
    if "\<forall>d<dim_k q. is_f32 (elem out z h m d) \<and> is_f32 (elem do z h m d)
                        \<and> is_f32 (elem out z h m d * elem do z h m d)"
      and "exact_sum sched (\<lambda>d. elem out z h m d * elem do z h m d)"
    unfolding delta_f32_def delta_ref_def using red that by (rule tl_sum_f32_exact_products)
  from 1 2 3 show ?thesis by blast
qed

text \<open>At a zero-filled input of \<open>96\<close> rows, and at the row of \<open>row_o\<close> and \<open>row_do\<close>,
  where the products sum to \<open>62853137\<close> and \<open>62853136\<close> is stored.\<close>

theorem preprocess_delta_witness:
  "stores_to (int ((0 * dim_h (ex_t 96) + 0) * dim_n (ex_t 96) + 70))
      (delta_stores (backward rtx3090 (tree_sched 4 0) zeros zeros (ex_launch 96 0 False)
          (ex_t 96) (ex_t 96) (ex_t 96) (ex_t 96) zeros (ex_t 96)))
     = [(int ((0 * dim_h (ex_t 96) + 0) * dim_n (ex_t 96) + 70),
         delta_f32 (tree_sched 4 0) (ex_t 96) (ex_t 96) 0 0 70)]
   \<and> delta_f32 (tree_sched 4 0) (ex_t 96) (ex_t 96) 0 0 70
       = Fin (delta_ref (ex_t 96) (ex_t 96) (dim_k (ex_t 96)) 0 0 70)
   \<and> stores_to (int ((0 * dim_h row_o + 0) * dim_n row_o + 0))
      (delta_stores (backward rtx3090 (tree_sched 4 0) zeros zeros (ex_launch 1 0 False)
          row_o row_o row_o row_o zeros row_do))
     = [(int ((0 * dim_h row_o + 0) * dim_n row_o + 0), Fin 62853136)]
   \<and> delta_ref row_o row_do 16 0 0 0 = 62853137"
proof -
  have z: "0 < dim_z (ex_t 96)" and h: "0 < dim_h (ex_t 96)" and m: "70 < dim_n (ex_t 96)"
    and rows: "int (dim_n (ex_t 96)) + 128 \<le> 2 ^ 31"
    and size: "int (dim_z (ex_t 96) * dim_h (ex_t 96) * dim_n (ex_t 96)) \<le> 2 ^ 31"
    and ad: "addressable (ex_t 96) (dim_z (ex_t 96)) (dim_h (ex_t 96)) (dim_n (ex_t 96)) (dim_k (ex_t 96))"
    by (simp_all add: ex_t_def BHTD_def addressable_def)
  have red: "reduces (tree_sched 4 0) (dim_k (ex_t 96))"
    using reduces_tree_sched [of 4] by (simp add: ex_t_def BHTD_def)
  have el: "elem (ex_t 96) 0 0 70 d = 0" for d by (simp add: elem_def ex_t_def BHTD_def zeros_def)
  have ex: "\<forall>d<dim_k (ex_t 96). is_f32 (elem (ex_t 96) 0 0 70 d) \<and> is_f32 (elem (ex_t 96) 0 0 70 d)
              \<and> is_f32 (elem (ex_t 96) 0 0 70 d * elem (ex_t 96) 0 0 70 d)"
    and es: "exact_sum (tree_sched 4 0) (\<lambda>d. elem (ex_t 96) 0 0 70 d * elem (ex_t 96) 0 0 70 d)"
    unfolding el tree_sched_4 by (simp_all add: is_f32_def)
  from preprocess_delta [OF z h m red rows size ad ad, of rtx3090 zeros zeros "ex_launch 96 0 False"
      "ex_t 96" "ex_t 96" zeros] ex es
  have 1: "stores_to (int ((0 * dim_h (ex_t 96) + 0) * dim_n (ex_t 96) + 70))
      (delta_stores (backward rtx3090 (tree_sched 4 0) zeros zeros (ex_launch 96 0 False)
          (ex_t 96) (ex_t 96) (ex_t 96) (ex_t 96) zeros (ex_t 96)))
     = [(int ((0 * dim_h (ex_t 96) + 0) * dim_n (ex_t 96) + 70),
         delta_f32 (tree_sched 4 0) (ex_t 96) (ex_t 96) 0 0 70)]"
    and 2: "delta_f32 (tree_sched 4 0) (ex_t 96) (ex_t 96) 0 0 70
       = Fin (delta_ref (ex_t 96) (ex_t 96) (dim_k (ex_t 96)) 0 0 70)"
    by blast+
  have z': "0 < dim_z row_o" and h': "0 < dim_h row_o" and m': "0 < dim_n row_o"
    and rows': "int (dim_n row_o) + 128 \<le> 2 ^ 31"
    and size': "int (dim_z row_o * dim_h row_o * dim_n row_o) \<le> 2 ^ 31"
    and ao': "addressable row_o (dim_z row_o) (dim_h row_o) (dim_n row_o) (dim_k row_o)"
    and ad': "addressable row_do (dim_z row_o) (dim_h row_o) (dim_n row_o) (dim_k row_o)"
    by (simp_all add: row_o_def row_do_def BHTD_def addressable_def)
  have red': "reduces (tree_sched 4 0) (dim_k row_o)"
    using reduces_tree_sched [of 4] by (simp add: row_o_def BHTD_def)
  from preprocess_delta [OF z' h' m' red' rows' size' ao' ad', of rtx3090 zeros zeros "ex_launch 1 0 False"
      row_o row_o zeros]
  have 3: "stores_to (int ((0 * dim_h row_o + 0) * dim_n row_o + 0))
      (delta_stores (backward rtx3090 (tree_sched 4 0) zeros zeros (ex_launch 1 0 False)
          row_o row_o row_o row_o zeros row_do))
     = [(int ((0 * dim_h row_o + 0) * dim_n row_o + 0), Fin 62853136)]"
    unfolding row_sum_f32 by blast
  from 1 2 3 row_sum_real show ?thesis by blast
qed

section \<open>K and V in one layout\<close>

lemma softmax_out_cong:
  assumes "\<And>n. n < N \<Longrightarrow> vis n \<Longrightarrow> lg n = lg' n \<and> v n = v' n"
  shows "softmax_out N vis lg v = softmax_out N vis lg' v'"
proof -
  have "(\<Sum>n<N. softmax_weight vis lg n * v n) = (\<Sum>n<N. softmax_weight vis lg' n * v' n)"
    using assms by (intro sum.cong refl) (auto simp: softmax_weight_def)
  moreover have "(\<Sum>n<N. softmax_weight vis lg n) = (\<Sum>n<N. softmax_weight vis lg' n)"
    using assms by (intro sum.cong refl) (auto simp: softmax_weight_def)
  ultimately show ?thesis by (simp add: softmax_out_def)
qed

text \<open>With K and V in one layout the forward kernel computes the attention of the
  specification, for a positive scale and \<open>N \<ge> M\<close>; the logit of a visited lane is
  \<open>-\<infinity>\<close> exactly at the masked keys.\<close>

lemma fwd_same_layout_attention:
  fixes a :: launch and Q K V :: tensor and junk :: "int \<Rightarrow> real" and start_m off_h off_z i :: nat
  assumes ok: "launch_ok a" and sn: "stride_n K = stride_n V" and sk: "stride_k K = stride_k V"
    and i: "i < BLOCK_M a" and row: "offs_m a start_m i < N_CTX a"
  shows "fwd_o_row a Q K V junk start_m off_h off_z i d
           = Fin (attention_ref a Q K V off_z off_h (offs_m a start_m i) d)"
    and "d < BLOCK_DMODEL a \<Longrightarrow>
         (fwd_o_ptrs a Out start_m off_h off_z i d,
          Fin (attention_ref a Q K V off_z off_h (offs_m a start_m i) d))
           \<in> set (fwd_kernel_O a Q K V Out junk start_m off_h off_z)"
    and "k < n_tiles (fwd_hi a start_m) (BLOCK_N a) \<Longrightarrow> j < BLOCK_N a \<Longrightarrow>
         (fwd_s a Q K V junk start_m off_h off_z (k * BLOCK_N a) i j = NInf)
           = (\<not> unmasked a (offs_m a start_m i) (k * BLOCK_N a + j))"
proof -
  from ok have sc: "0 < sm_scale a" and B: "0 < BLOCK_N a" and P: "0 \<le> P_SEQ a"
    by (simp_all add: launch_ok_def)
  note dv = launch_ok_dv [OF ok]
  from fwd_row_result [OF sc B P i row dv, of Q K V junk off_h off_z]
  have "fwd_o_row a Q K V junk start_m off_h off_z i d
      = Fin (attention_as_read a Q K V off_z off_h (offs_m a start_m i) d)"
    by blast
  then show O: "fwd_o_row a Q K V junk start_m off_h off_z i d
           = Fin (attention_ref a Q K V off_z off_h (offs_m a start_m i) d)"
    by (simp only: attention_same_layout [OF sn sk B])
  show "(fwd_o_ptrs a Out start_m off_h off_z i d,
          Fin (attention_ref a Q K V off_z off_h (offs_m a start_m i) d))
           \<in> set (fwd_kernel_O a Q K V Out junk start_m off_h off_z)" if "d < BLOCK_DMODEL a"
    using that i fwd_mask_m_row [OF row] by (auto simp: fwd_kernel_O_def O [symmetric])
  show "(fwd_s a Q K V junk start_m off_h off_z (k * BLOCK_N a) i j = NInf)
           = (\<not> unmasked a (offs_m a start_m i) (k * BLOCK_N a + j))"
    if "k < n_tiles (fwd_hi a start_m) (BLOCK_N a)" "j < BLOCK_N a"
    unfolding fwd_cell(1) [OF B P row dv that] by simp
qed

text \<open>With K and V in one layout, the outputs of a row depend on K and V through the
  \<open>D\<close> features of the unmasked keys only.\<close>

lemma fwd_same_layout_no_leak:
  fixes a :: launch and Q K V K' V' :: tensor and junk junk' :: "int \<Rightarrow> real"
    and start_m off_h off_z i :: nat
  assumes ok: "launch_ok a"
    and s: "stride_n K = stride_n V" "stride_k K = stride_k V"
    and s': "stride_n K' = stride_n V'" "stride_k K' = stride_k V'"
    and i: "i < BLOCK_M a" and row: "offs_m a start_m i < N_CTX a"
    and same: "\<And>n d. unmasked a (offs_m a start_m i) n \<Longrightarrow> d < BLOCK_DMODEL a \<Longrightarrow>
                 elem K off_z off_h n d = elem K' off_z off_h n d \<and>
                 elem V off_z off_h n d = elem V' off_z off_h n d"
  shows "d < BLOCK_DMODEL a \<Longrightarrow>
         fwd_o_row a Q K V junk start_m off_h off_z i d
           = fwd_o_row a Q K' V' junk' start_m off_h off_z i d"
    and "fwd_l_row a Q K V junk start_m off_h off_z i
           = fwd_l_row a Q K' V' junk' start_m off_h off_z i"
proof -
  let ?m = "offs_m a start_m i"
  from ok have sc: "0 < sm_scale a" and B: "0 < BLOCK_N a" and P: "0 \<le> P_SEQ a"
    by (simp_all add: launch_ok_def)
  note dv = launch_ok_dv [OF ok]
  have qk: "qk_dot (BLOCK_DMODEL a) (elem Q off_z off_h ?m) (elem K off_z off_h n)
             = qk_dot (BLOCK_DMODEL a) (elem Q off_z off_h ?m) (elem K' off_z off_h n)"
    if "unmasked a ?m n" for n
    unfolding qk_dot_def using same [OF that] by (intro sum.cong refl) simp
  have lg: "fwd_logit a Q K V off_z off_h ?m n = fwd_logit a Q K' V' off_z off_h ?m n"
    if "unmasked a ?m n" for n
    using qk [OF that]
    by (simp add: fwd_logit_def qk_dot_def fwd_read_same_layout [OF s B] fwd_read_same_layout [OF s' B])
  show "fwd_o_row a Q K V junk start_m off_h off_z i d
           = fwd_o_row a Q K' V' junk' start_m off_h off_z i d" if d: "d < BLOCK_DMODEL a"
  proof -
    have "attention_ref a Q K V off_z off_h ?m d = attention_ref a Q K' V' off_z off_h ?m d"
      unfolding attention_ref_def
      by (rule softmax_out_cong) (simp add: same d qk)
    then show ?thesis
      by (simp only: fwd_same_layout_attention(1) [OF ok s i row]
          fwd_same_layout_attention(1) [OF ok s' i row])
  qed
  let ?F = "\<lambda>K V. softmax_weight (unmasked a ?m) (\<lambda>n. fwd_logit a Q K V off_z off_h ?m n * sm_scale a)"
  have F: "(\<Sum>n<n_keys a. ?F K V n) = (\<Sum>n<n_keys a. ?F K' V' n)"
    by (intro sum.cong refl) (auto simp: softmax_weight_def lg)
  from fwd_row_result [OF sc B P i row dv, of Q K V junk off_h off_z]
  have 1: "fwd_l_row a Q K V junk start_m off_h off_z i = Fin (ln (\<Sum>n<n_keys a. ?F K V n))"
    by force
  from fwd_row_result [OF sc B P i row dv, of Q K' V' junk' off_h off_z]
  have 2: "fwd_l_row a Q K' V' junk' start_m off_h off_z i = Fin (ln (\<Sum>n<n_keys a. ?F K' V' n))"
    by force
  from 1 2 F show "fwd_l_row a Q K V junk start_m off_h off_z i
           = fwd_l_row a Q K' V' junk' start_m off_h off_z i"
    by simp
qed

text \<open>With K and V in one layout, a positive scale and \<open>N \<ge> M\<close>, the forward kernel's
  \<open>L\<close> of a row below \<open>M\<close> is the log-normaliser of the row.\<close>

lemma fwd_same_layout_log_normalizer:
  fixes a :: launch and Q K V :: tensor and junk :: "int \<Rightarrow> real" and start_m off_h off_z i :: nat
  assumes ok: "launch_ok a" and sn: "stride_n K = stride_n V" and sk: "stride_k K = stride_k V"
    and i: "i < BLOCK_M a" and row: "offs_m a start_m i < N_CTX a"
  shows "fwd_l_row a Q K V junk start_m off_h off_z i
           = Fin (log_normalizer_ref a Q K off_z off_h (offs_m a start_m i))"
proof -
  let ?m = "offs_m a start_m i"
  let ?lg = "\<lambda>n. qk_dot (BLOCK_DMODEL a) (elem Q off_z off_h ?m) (elem K off_z off_h n)"
  let ?S = "{n \<in> {..<n_keys a}. unmasked a ?m n}"
  from ok have sc: "0 < sm_scale a" and B: "0 < BLOCK_N a" and P: "0 \<le> P_SEQ a"
    by (simp_all add: launch_ok_def)
  note dv = launch_ok_dv [OF ok]
  have "fwd_logit a Q K V off_z off_h ?m n = ?lg n" for n
    by (simp add: fwd_logit_def qk_dot_def fwd_read_same_layout [OF sn sk B])
  then have lgeq: "fwd_logit a Q K V off_z off_h ?m = ?lg" by (intro ext)
  from fwd_row_result [OF sc B P i row dv, of Q K V junk off_h off_z]
  obtain mx l n0 where n0: "unmasked a ?m n0" "?lg n0 = mx"
    and ub: "\<forall>n. unmasked a ?m n \<longrightarrow> ?lg n \<le> mx"
    and l: "l = (\<Sum>n<n_keys a. if unmasked a ?m n then exp ((?lg n - mx) * sm_scale a) else 0)"
    and L: "fwd_l_row a Q K V junk start_m off_h off_z i = Fin (mx * sm_scale a + ln l)"
    unfolding lgeq by blast
  have M: "Max (?lg ` ?S) = mx"
  proof (rule Max_eqI)
    show "finite (?lg ` ?S)" by simp
    show "y \<le> mx" if "y \<in> ?lg ` ?S" for y using that ub by auto
    show "mx \<in> ?lg ` ?S" using n0 by (auto simp: unmasked_def)
  qed
  have "log_normalizer_ref a Q K off_z off_h ?m = mx * sm_scale a + ln l"
    by (simp only: log_normalizer_ref_def Let_def M l)
  with L show ?thesis by simp
qed

text \<open>With K and V in one layout, and \<open>L\<close> as the forward pass stored it, the
  probability the backward key/value kernel recomputes for an in-range query row and
  key column is the forward softmax probability.\<close>

lemma bwd_same_layout_probability:
  fixes a b :: launch and x :: bwd_in and junk :: "int \<Rightarrow> real"
    and start_n start_m off_h off_z i j :: nat
  defines "m \<equiv> start_m + i" and "n \<equiv> start_n * BLOCK_N b + j"
  defines "F \<equiv> softmax_weight (unmasked a m)
       (\<lambda>n. qk_dot (BLOCK_DMODEL a) (elem (Q_in x) off_z off_h m) (elem (K_in x) off_z off_h n)
              * sm_scale a)"
  assumes ok: "launch_ok a"
    and sn: "stride_n (K_in x) = stride_n (V_in x)" and sk: "stride_k (K_in x) = stride_k (V_in x)"
    and cfg: "sm_scale b = sm_scale a" "N_CTX b = N_CTX a" "P_SEQ b = P_SEQ a"
      "CAUSAL b = CAUSAL a" "BLOCK_DMODEL b = BLOCK_DMODEL a"
    and row: "m < N_CTX a" and col: "n < n_keys a"
    and L: "fwd_l_row a (Q_in x) (K_in x) (V_in x) junk (m div BLOCK_M a) off_h off_z (m mod BLOCK_M a)
              = Fin (L_in x (stat_ptrs b off_h off_z m))"
  shows "bwd_kv_p b x start_n off_h off_z start_m i j = F n / (\<Sum>n<n_keys a. F n)"
proof -
  let ?Q = "Q_in x" and ?K = "K_in x" and ?V = "V_in x"
  let ?lg = "\<lambda>n. qk_dot (BLOCK_DMODEL a) (elem ?Q off_z off_h m) (elem ?K off_z off_h n)"
  from ok have sc: "0 < sm_scale a" and B: "0 < BLOCK_N a" and P: "0 \<le> P_SEQ a"
    and BM: "0 < BLOCK_M a"
    by (simp_all add: launch_ok_def)
  note dv = launch_ok_dv [OF ok]
  have i': "m mod BLOCK_M a < BLOCK_M a" using BM by simp
  have om: "offs_m a (m div BLOCK_M a) (m mod BLOCK_M a) = m" by (simp add: offs_m_def)
  have row': "offs_m a (m div BLOCK_M a) (m mod BLOCK_M a) < N_CTX a" using row by (simp only: om)
  have "fwd_logit a ?Q ?K ?V off_z off_h m n' = ?lg n'" for n'
    by (simp add: fwd_logit_def qk_dot_def fwd_read_same_layout [OF sn sk B])
  then have lgeq: "fwd_logit a ?Q ?K ?V off_z off_h m = ?lg" by (intro ext)
  from fwd_row_result [OF sc B P i' row' dv, of ?Q ?K ?V junk off_h off_z]
  obtain mx l where l: "0 < l"
    and Lv: "fwd_l_row a ?Q ?K ?V junk (m div BLOCK_M a) off_h off_z (m mod BLOCK_M a)
               = Fin (mx * sm_scale a + ln l)"
    and Ls: "mx * sm_scale a + ln l = ln (\<Sum>n<n_keys a. F n)"
    unfolding om lgeq F_def by blast
  have Lin: "L_in x (stat_ptrs b off_h off_z m) = ln (\<Sum>n<n_keys a. F n)"
    using L Lv Ls by simp
  have Zpos: "0 < (\<Sum>n<n_keys a. F n)"
  proof -
    have "0 < F n" if "unmasked a m n" for n using that by (simp add: F_def softmax_weight_def)
    moreover have "0 \<le> F n" for n by (simp add: F_def softmax_weight_def)
    moreover from fwd_row_result [OF sc B P i' row' dv, of ?Q ?K ?V junk off_h off_z]
    obtain n0 where "unmasked a m n0" unfolding om by blast
    ultimately show ?thesis
      by (intro sum_pos2 [of _ n0]) (auto simp: unmasked_def)
  qed
  have mm: "bwd_kv_mask_m b start_m i"
    using row by (simp add: bwd_kv_mask_m_def m_def cfg)
  have coli: "int n < int (N_CTX a) + P_SEQ a" using col by (simp add: n_keys_def)
  have mn: "bwd_kv_mask_n b start_n j"
    using coli by (simp add: bwd_kv_mask_n_def bwd_kv_offs_n_def n_def cfg)
  have vm: "bwd_kv_valid_mask b start_n start_m i j"
    using mn row by (simp add: bwd_kv_valid_mask_def m_def cfg)
  have s: "(\<Sum>d<BLOCK_DMODEL b. bwd_kv_q b x off_h off_z start_m i d
                                  * bwd_kv_k b x start_n off_h off_z j d) = ?lg n"
    using mm mn
    by (simp add: bwd_kv_q_def bwd_kv_k_def tl_load_def row_ptrs_def elem_def qk_dot_def
        bwd_kv_offs_n_def m_def n_def cfg add.assoc)
  have lv: "bwd_kv_l b x off_h off_z start_m i = ln (\<Sum>n<n_keys a. F n)"
    using mm Lin by (simp add: bwd_kv_l_def tl_load_def m_def)
  have "?lg n * qk_scale b - ln (\<Sum>n<n_keys a. F n) * log2e
          = (?lg n * sm_scale a - ln (\<Sum>n<n_keys a. F n)) * log2e"
    by (simp add: qk_scale_def cfg algebra_simps)
  then have e: "exp2 (?lg n * qk_scale b - ln (\<Sum>n<n_keys a. F n) * log2e)
                  = exp (?lg n * sm_scale a) / (\<Sum>n<n_keys a. F n)"
    using Zpos by (simp only: exp2_log2e exp_diff exp_ln)
  have cm: "bwd_kv_causal_mask b start_n start_m i j = (int n \<le> P_SEQ a + int m)"
    by (simp add: bwd_kv_causal_mask_def bwd_kv_offs_n_def m_def n_def cfg)
  show ?thesis
    unfolding bwd_kv_p_def Let_def s lv e
    using vm col by (simp add: cm cfg F_def softmax_weight_def unmasked_def)
qed

section \<open>Inputs with K and V in different layouts\<close>

lemma c2_fwd_eq:
  "c2_fwd = \<lparr>sm_scale = 1 / sqrt 16, nheads = 2, N_CTX = 2, P_SEQ = 0, BLOCK_M = 128,
      BLOCK_DMODEL = 16, BLOCK_N = 64, CAUSAL = False, DIVISIBLE_M = False, DIVISIBLE_N = False\<rparr>"
  by (simp add: c2_fwd_def fwd_launch_def fwd_config_def Let_def c2_q_def c2_k_def BHTD_def BTHD_def)

lemma c2_bwd_eq:
  "c2_bwd = \<lparr>sm_scale = 1 / sqrt 16, nheads = 2, N_CTX = 2, P_SEQ = 0, BLOCK_M = 64,
      BLOCK_DMODEL = 16, BLOCK_N = 64, CAUSAL = False, DIVISIBLE_M = False, DIVISIBLE_N = False\<rparr>"
  by (simp add: c2_bwd_def c2_fwd_eq bwd_launch_def bwd_config_def Let_def c2_q_def c2_k_def BHTD_def BTHD_def)

text \<open>
  Claim C1 says that for all Q, K and V of the given shapes the forward pass produces
  \<open>O[b, h, m, :] = \<Sum>\<^sub>n softmax\<^sub>n (masked (Q[b, h, m, :] \<cdot> K[b, h, n, :] * scale)) * V[b, h, n, :]\<close>.
  The forward kernel builds its pointers into K with the strides of V and its pointers
  into V with the strides of K. For the input \<open>c1_q\<close>, \<open>c1_k\<close>, \<open>c1_v\<close>, which
  \<^verbatim>\<open>forward\<close> accepts, the kernel stores \<open>O[0, 0, 0, 0] = 0\<close> where the claim gives
  \<open>1 / 2\<close>.
\<close>

theorem fwd_mixed_layout_output:
  "map_sum id saved (snd (forward rtx3090 zeros host0 c1_q c1_k c1_v False None)) = Inr c1_launch
   \<and> fwd_o_row c1_launch c1_q c1_k c1_v zeros 0 0 0 0 0 = Fin 0
   \<and> attention_ref c1_launch c1_q c1_k c1_v 0 0 0 0 = 1 / 2"
proof -
  have acc: "map_sum id saved (snd (forward rtx3090 zeros host0 c1_q c1_k c1_v False None)) = Inr c1_launch"
    by (simp add: forward_def Let_def c1_launch_def rtx3090_def c1_q_def c1_k_def c1_v_def BHTD_def BTHD_def)
  have sc: "0 < sm_scale c1_launch" and B: "0 < BLOCK_N c1_launch" and P: "0 \<le> P_SEQ c1_launch"
    and i: "0 < BLOCK_M c1_launch" and row: "offs_m c1_launch 0 0 < N_CTX c1_launch"
    and dv: "DIVISIBLE_N c1_launch \<longrightarrow> BLOCK_N c1_launch dvd n_keys c1_launch"
    by (simp_all add: c1_launch_eq offs_m_def)
  from fwd_row_result [OF sc B P i row dv, of c1_q c1_k c1_v zeros 0 0]
  have "fwd_o_row c1_launch c1_q c1_k c1_v zeros 0 0 0 0 0
      = Fin (attention_as_read c1_launch c1_q c1_k c1_v 0 0 (offs_m c1_launch 0 0) 0)"
    by blast
  moreover have "attention_as_read c1_launch c1_q c1_k c1_v 0 0 (offs_m c1_launch 0 0) 0 = 0"
    by (simp add: attention_as_read_def softmax_out_def softmax_weight_def fwd_logit_def qk_dot_def
        fwd_v_read_def fwd_v_ptrs_def elem_def n_keys_def unmasked_def offs_m_def
        c1_launch_eq c1_q_def c1_k_def c1_v_def BHTD_def BTHD_def zeros_def one_at_def
        sum_lessThan_2)
  moreover have "attention_ref c1_launch c1_q c1_k c1_v 0 0 0 0 = 1 / 2"
    by (simp add: attention_ref_def softmax_out_def softmax_weight_def qk_dot_def
        elem_def n_keys_def unmasked_def
        c1_launch_eq c1_q_def c1_k_def c1_v_def BHTD_def BTHD_def zeros_def one_at_def
        sum_lessThan_2)
  ultimately show ?thesis using acc by simp
qed

text \<open>
  Claim C3 says that under causal masking \<open>O[b, h, i, :]\<close> and \<open>L[b, h, i]\<close> do not change
  when \<open>K[b, h, j, :]\<close> or \<open>V[b, h, j, :]\<close> change for a key \<open>j > P_SEQ + i\<close>. Because the
  forward kernel addresses V with the strides of K, it fails when their layouts differ:
  \<open>c3_v\<close> and \<open>c3_v'\<close> differ only in \<open>V[0, 0, 2, 0]\<close>, key \<open>2\<close> is masked for row \<open>1\<close>, and
  \<open>O[0, 0, 1, 0]\<close> is \<open>0\<close> for the one and \<open>1 / 2\<close> for the other.
\<close>

theorem fwd_mixed_layout_leak:
  "map_sum id saved (snd (forward rtx3090 zeros host0 c3_q c3_k c3_v True None)) = Inr c3_launch
   \<and> map_sum id saved (snd (forward rtx3090 zeros host0 c3_q c3_k c3_v' True None)) = Inr c3_launch
   \<and> CAUSAL c3_launch \<and> P_SEQ c3_launch + int 1 < int 2
   \<and> fwd_o_row c3_launch c3_q c3_k c3_v zeros 0 0 0 1 0 = Fin 0
   \<and> fwd_o_row c3_launch c3_q c3_k c3_v' zeros 0 0 0 1 0 = Fin (1 / 2)"
proof -
  have acc: "map_sum id saved (snd (forward rtx3090 zeros host0 c3_q c3_k c3_v True None)) = Inr c3_launch"
    "map_sum id saved (snd (forward rtx3090 zeros host0 c3_q c3_k c3_v' True None)) = Inr c3_launch"
    by (simp_all add: forward_def Let_def c3_launch_def rtx3090_def c3_q_def c3_k_def c3_v_def c3_v'_def
        BHTD_def BTHD_def)
  have um: "CAUSAL c3_launch \<and> P_SEQ c3_launch + int 1 < int 2" by (simp add: c3_launch_eq)
  have sc: "0 < sm_scale c3_launch" and B: "0 < BLOCK_N c3_launch" and P: "0 \<le> P_SEQ c3_launch"
    and i: "1 < BLOCK_M c3_launch" and row: "offs_m c3_launch 0 1 < N_CTX c3_launch"
    and dv: "DIVISIBLE_N c3_launch \<longrightarrow> BLOCK_N c3_launch dvd n_keys c3_launch"
    by (simp_all add: c3_launch_eq offs_m_def)
  from fwd_row_result [OF sc B P i row dv, of c3_q c3_k c3_v zeros 0 0]
  have 1: "fwd_o_row c3_launch c3_q c3_k c3_v zeros 0 0 0 1 0
      = Fin (attention_as_read c3_launch c3_q c3_k c3_v 0 0 (offs_m c3_launch 0 1) 0)"
    by blast
  from fwd_row_result [OF sc B P i row dv, of c3_q c3_k c3_v' zeros 0 0]
  have 2: "fwd_o_row c3_launch c3_q c3_k c3_v' zeros 0 0 0 1 0
      = Fin (attention_as_read c3_launch c3_q c3_k c3_v' 0 0 (offs_m c3_launch 0 1) 0)"
    by blast
  have 3: "attention_as_read c3_launch c3_q c3_k c3_v 0 0 (offs_m c3_launch 0 1) 0 = 0"
    by (simp add: attention_as_read_def softmax_out_def softmax_weight_def fwd_logit_def qk_dot_def
        fwd_v_read_def fwd_v_ptrs_def elem_def n_keys_def unmasked_def offs_m_def
        c3_launch_eq c3_q_def c3_k_def c3_v_def BHTD_def BTHD_def zeros_def
        sum_lessThan_3)
  have 4: "attention_as_read c3_launch c3_q c3_k c3_v' 0 0 (offs_m c3_launch 0 1) 0 = 1 / 2"
    by (simp add: attention_as_read_def softmax_out_def softmax_weight_def fwd_logit_def qk_dot_def
        fwd_v_read_def fwd_v_ptrs_def elem_def n_keys_def unmasked_def offs_m_def
        c3_launch_eq c3_q_def c3_k_def c3_v'_def BHTD_def BTHD_def zeros_def one_at_def
        sum_lessThan_3)
  from acc um 1 2 3 4 show ?thesis by simp
qed

text \<open>
  Claim C2 says that for every input accepted by \<^verbatim>\<open>forward\<close> the probabilities the
  backward KV kernel recomputes as \<open>exp (s * scale - L)\<close> equal the normalised probabilities
  the forward pass used. The backward kernel reads K through the strides of K, the forward
  kernel through those of V: for the input \<open>c2_q\<close>, \<open>c2_k\<close>, \<open>c2_v\<close> the forward pass
  stores \<open>L = ln 2\<close> for row \<open>0\<close> of head \<open>0\<close> and gave key \<open>1\<close> the probability \<open>1 / 2\<close>,
  and the backward kernel recomputes \<open>exp (1 / 4) / 2\<close>.
\<close>

theorem bwd_mixed_layout_probability:
  "map_sum id saved (snd (forward rtx3090 zeros host0 c2_q c2_k c2_v False None)) = Inr c2_fwd
   \<and> fwd_l_row c2_fwd c2_q c2_k c2_v zeros 0 0 0 0 = Fin (ln 2)
   \<and> fwd_p c2_fwd c2_q c2_k c2_v zeros 0 0 0 0 0 1 = Fin (1 / 2)
   \<and> bwd_kv_p c2_bwd c2_in 0 0 0 0 0 1 = exp (1 / 4) / 2
   \<and> bwd_kv_p c2_bwd c2_in 0 0 0 0 0 1 \<noteq> 1 / 2"
proof -
  have acc: "map_sum id saved (snd (forward rtx3090 zeros host0 c2_q c2_k c2_v False None)) = Inr c2_fwd"
    by (simp add: forward_def Let_def c2_fwd_def rtx3090_def c2_q_def c2_k_def c2_v_def BHTD_def BTHD_def)
  have sc: "0 < sm_scale c2_fwd" and B: "0 < BLOCK_N c2_fwd" and P: "0 \<le> P_SEQ c2_fwd"
    and i: "0 < BLOCK_M c2_fwd" and row: "offs_m c2_fwd 0 0 < N_CTX c2_fwd"
    and dv: "DIVISIBLE_N c2_fwd \<longrightarrow> BLOCK_N c2_fwd dvd n_keys c2_fwd"
    by (simp_all add: c2_fwd_eq offs_m_def)
  have lg: "fwd_logit c2_fwd c2_q c2_k c2_v 0 0 0 n = 0" if "n < 2" for n
  proof -
    from that have "n = 0 \<or> n = 1" by auto
    then show ?thesis
      by (auto simp: fwd_logit_def qk_dot_def fwd_k_read_def fwd_k_ptrs_def elem_def
          c2_fwd_eq c2_q_def c2_k_def c2_v_def BHTD_def BTHD_def sum_one_at_0 one_at_def)
  qed
  have nk: "n_keys c2_fwd = 2" and om: "offs_m c2_fwd 0 0 = 0"
    and um: "unmasked c2_fwd 0 n = (n < 2)" for n
    by (simp_all add: n_keys_def unmasked_def offs_m_def c2_fwd_eq)
  have Z: "(\<Sum>n<n_keys c2_fwd. softmax_weight (unmasked c2_fwd (offs_m c2_fwd 0 0))
              (\<lambda>n. fwd_logit c2_fwd c2_q c2_k c2_v 0 0 (offs_m c2_fwd 0 0) n * sm_scale c2_fwd) n) = 2"
    by (simp add: nk om um softmax_weight_def lg sum_lessThan_2)
  from fwd_row_result [OF sc B P i row dv, of c2_q c2_k c2_v zeros 0 0]
  have L: "fwd_l_row c2_fwd c2_q c2_k c2_v zeros 0 0 0 0 = Fin (ln 2)"
    unfolding Z by force
  have k: "0 < n_tiles (fwd_hi c2_fwd 0) (BLOCK_N c2_fwd)"
    by (simp add: n_tiles_def fwd_hi_def c2_fwd_eq)
  have j: "1 < BLOCK_N c2_fwd" by (simp add: c2_fwd_eq)
  from fwd_p_value [OF sc B P i row dv k j, of c2_q c2_k c2_v zeros 0 0]
  have p: "fwd_p c2_fwd c2_q c2_k c2_v zeros 0 0 0 0 0 1 = Fin (1 / 2)"
    unfolding Z by (simp add: softmax_weight_def om um lg)
  have s: "(\<Sum>d<BLOCK_DMODEL c2_bwd. bwd_kv_q c2_bwd c2_in 0 0 0 0 d * bwd_kv_k c2_bwd c2_in 0 0 0 1 d) = 1"
    by (simp add: bwd_kv_q_def bwd_kv_k_def bwd_kv_mask_m_def bwd_kv_mask_n_def bwd_kv_offs_n_def
        tl_load_def row_ptrs_def c2_bwd_eq c2_in_def c2_q_def c2_k_def BHTD_def BTHD_def
        sum_one_at_0)
      (simp add: one_at_def)
  have "bwd_kv_p c2_bwd c2_in 0 0 0 0 0 1 = exp2 (1 * qk_scale c2_bwd - ln 2 * log2e)"
    unfolding bwd_kv_p_def Let_def s
    by (simp add: bwd_kv_l_def bwd_kv_mask_m_def bwd_kv_valid_mask_def tl_load_def c2_bwd_eq c2_in_def)
  also have "1 * qk_scale c2_bwd - ln 2 * log2e = (sm_scale c2_bwd - ln 2) * log2e"
    by (simp add: qk_scale_def algebra_simps)
  also have "exp2 \<dots> = exp (sm_scale c2_bwd - ln 2)" by (rule exp2_log2e)
  also have "\<dots> = exp (1 / 4) / 2" by (simp add: exp_diff c2_bwd_eq)
  finally have b: "bwd_kv_p c2_bwd c2_in 0 0 0 0 0 1 = exp (1 / 4) / 2" .
  have "exp (1 / 4 :: real) \<noteq> 1" by simp
  with b have "bwd_kv_p c2_bwd c2_in 0 0 0 0 0 1 \<noteq> 1 / 2" by simp
  with acc L p b show ?thesis by simp
qed

text \<open>The forward pass on the input \<open>c2_q\<close>, \<open>c8_k\<close>, \<open>c2_v\<close>, and the log-normaliser
  of row \<open>0\<close> of head \<open>0\<close> over its keys.\<close>

lemma c8_fwd_eq:
  "c8_fwd = \<lparr>sm_scale = 1 / sqrt 16, nheads = 2, N_CTX = 2, P_SEQ = 0, BLOCK_M = 128,
      BLOCK_DMODEL = 16, BLOCK_N = 64, CAUSAL = False, DIVISIBLE_M = False, DIVISIBLE_N = False\<rparr>"
  by (simp add: c8_fwd_def fwd_launch_def fwd_config_def Let_def c2_q_def c8_k_def BHTD_def BTHD_def)

lemma c8_forward_L:
  shows "\<exists>acc. fwd_loop c8_fwd c2_q c8_k c2_v zeros 0 0 0 0 = (Fin 2, Fin (1 + exp (- (1 / 2))), acc)"
    and "fwd_l_row c8_fwd c2_q c8_k c2_v zeros 0 0 0 0 = Fin (1 / 2 + ln (1 + exp (- (1 / 2))))"
proof -
  have sc: "0 < sm_scale c8_fwd" and B: "0 < BLOCK_N c8_fwd" and P: "0 \<le> P_SEQ c8_fwd"
    and i: "0 < BLOCK_M c8_fwd" and row: "offs_m c8_fwd 0 0 < N_CTX c8_fwd"
    and dv: "DIVISIBLE_N c8_fwd \<longrightarrow> BLOCK_N c8_fwd dvd n_keys c8_fwd"
    by (simp_all add: c8_fwd_eq offs_m_def)
  have lg: "fwd_logit c8_fwd c2_q c8_k c2_v 0 0 0 n = (if n = 1 then 2 else 0)" if "n < 2" for n
  proof -
    have "fwd_logit c8_fwd c2_q c8_k c2_v 0 0 0 n = fwd_k_read c8_fwd c8_k c2_v 0 0 n 0"
      by (simp add: fwd_logit_def qk_dot_def elem_def c8_fwd_eq c2_q_def BHTD_def sum_one_at_0)
    moreover from that have "n = 0 \<or> n = 1" by auto
    then have "fwd_k_read c8_fwd c8_k c2_v 0 0 n 0 = (if n = 1 then 2 else 0)"
      by (auto simp: fwd_k_read_def fwd_k_ptrs_def c8_fwd_eq c8_k_def c2_v_def BHTD_def BTHD_def)
    ultimately show ?thesis by simp
  qed
  have nk: "n_keys c8_fwd = 2" and om: "offs_m c8_fwd 0 0 = 0"
    and um: "unmasked c8_fwd 0 n = (n < 2)" and s: "sm_scale c8_fwd = 1 / 4" for n
    by (simp_all add: n_keys_def unmasked_def offs_m_def c8_fwd_eq)
  from fwd_row_result [OF sc B P i row dv, of c2_q c8_k c2_v zeros 0 0]
  obtain mx l A where st: "fwd_loop c8_fwd c2_q c8_k c2_v zeros 0 0 0 0 = (Fin mx, Fin l, \<lambda>d. Fin (A d))"
    and at: "\<exists>n. unmasked c8_fwd 0 n \<and> fwd_logit c8_fwd c2_q c8_k c2_v 0 0 0 n = mx"
    and ub: "\<forall>n. unmasked c8_fwd 0 n \<longrightarrow> fwd_logit c8_fwd c2_q c8_k c2_v 0 0 0 n \<le> mx"
    and ls: "l = (\<Sum>n<n_keys c8_fwd. if unmasked c8_fwd 0 n
                    then exp ((fwd_logit c8_fwd c2_q c8_k c2_v 0 0 0 n - mx) * sm_scale c8_fwd) else 0)"
    and L: "fwd_l_row c8_fwd c2_q c8_k c2_v zeros 0 0 0 0 = Fin (mx * sm_scale c8_fwd + ln l)"
    unfolding om by blast
  from ub have "fwd_logit c8_fwd c2_q c8_k c2_v 0 0 0 1 \<le> mx" by (simp add: um)
  then have "2 \<le> mx" by (simp add: lg)
  moreover from at have "mx \<le> 2" using lg by (auto simp: um split: if_splits)
  ultimately have mx: "mx = 2" by simp
  have l2: "l = 1 + exp (- (1 / 2))" unfolding ls mx nk s by (simp add: um lg sum_lessThan_2)
  show "fwd_l_row c8_fwd c2_q c8_k c2_v zeros 0 0 0 0 = Fin (1 / 2 + ln (1 + exp (- (1 / 2))))"
    unfolding L mx l2 s by simp
  show "\<exists>acc. fwd_loop c8_fwd c2_q c8_k c2_v zeros 0 0 0 0 = (Fin 2, Fin (1 + exp (- (1 / 2))), acc)"
    using st mx l2 by simp
qed

lemma c8_log_normalizer_ref:
  "log_normalizer_ref c8_fwd c2_q c8_k 0 0 0 = 1 / 4 + ln (1 + exp (- (1 / 4)))"
proof -
  have nk: "n_keys c8_fwd = 2" and um: "unmasked c8_fwd 0 n = (n < 2)"
    and s: "sm_scale c8_fwd = 1 / 4" and D: "BLOCK_DMODEL c8_fwd = 16" for n
    by (simp_all add: n_keys_def unmasked_def c8_fwd_eq)
  have lg: "qk_dot 16 (elem c2_q 0 0 0) (elem c8_k 0 0 n) = (if n = 1 then 1 else 0)" if "n < 2" for n
  proof -
    have "qk_dot 16 (elem c2_q 0 0 0) (elem c8_k 0 0 n) = elem c8_k 0 0 n 0"
      by (simp add: qk_dot_def elem_def c2_q_def BHTD_def sum_one_at_0)
    moreover from that have "n = 0 \<or> n = 1" by auto
    then have "elem c8_k 0 0 n 0 = (if n = 1 then 1 else 0)"
      by (auto simp: elem_def c8_k_def BTHD_def)
    ultimately show ?thesis by simp
  qed
  have S: "{n \<in> {..<2::nat}. n < 2} = {0, 1}" by auto
  have mx: "Max ((\<lambda>n. qk_dot 16 (elem c2_q 0 0 0) (elem c8_k 0 0 n)) ` {n \<in> {..<2::nat}. n < 2}) = 1"
    unfolding S by (simp add: lg)
  show ?thesis
    unfolding log_normalizer_ref_def Let_def nk um s D mx by (simp add: sum_lessThan_2 lg add.commute)
qed

lemma c8_values_differ: "1 / 2 + ln (1 + exp (- (1 / 2))) \<noteq> 1 / 4 + ln (1 + exp (- (1 / 4 :: real)))"
proof -
  have a: "1 / 2 + ln (1 + exp (- (1 / 2))) = ln (exp (1 / 2) + (1::real))"
  proof -
    have "ln (exp (1 / 2) * (1 + exp (- (1 / 2)))) = ln (exp (1 / 2)) + ln (1 + exp (- (1 / 2) :: real))"
      by (rule ln_mult_pos) (simp_all add: add_pos_pos)
    moreover have "exp (1 / 2) * (1 + exp (- (1 / 2))) = exp (1 / 2) + (1::real)"
      by (simp add: algebra_simps exp_minus)
    ultimately show ?thesis by simp
  qed
  have b: "1 / 4 + ln (1 + exp (- (1 / 4))) = ln (exp (1 / 4) + (1::real))"
  proof -
    have "ln (exp (1 / 4) * (1 + exp (- (1 / 4)))) = ln (exp (1 / 4)) + ln (1 + exp (- (1 / 4) :: real))"
      by (rule ln_mult_pos) (simp_all add: add_pos_pos)
    moreover have "exp (1 / 4) * (1 + exp (- (1 / 4))) = exp (1 / 4) + (1::real)"
      by (simp add: algebra_simps exp_minus)
    ultimately show ?thesis by simp
  qed
  have "exp (1 / 4) < exp (1 / 2 :: real)" by simp
  then have "exp (1 / 4) + 1 < exp (1 / 2) + (1::real)" by simp
  then have "ln (exp (1 / 4) + 1) < ln (exp (1 / 2) + (1::real))"
    by (subst ln_less_cancel_iff) (simp_all add: add_pos_pos)
  then show ?thesis unfolding a b by simp
qed

text \<open>
  Claim C8 says that the forward pass stores
  \<open>L[b, h, m] = running_max * scale + ln running_sum\<close> with the streaming-softmax statistics
  over the unmasked keys of the row. The forward kernel takes its logits from K read with
  the strides of V (the defect of claim C1). For the input \<open>c2_q\<close>, \<open>c8_k\<close>, \<open>c2_v\<close>, which
  \<^verbatim>\<open>forward\<close> accepts, the logits of row \<open>0\<close> of head \<open>0\<close> are \<open>0\<close> and \<open>1\<close>, so that
  \<open>running_max = 1\<close>, \<open>running_sum = 1 + exp (- 1 / 4)\<close> and
  \<open>L[0, 0, 0] = 1 / 4 + ln (1 + exp (- 1 / 4))\<close>. The kernel reads \<open>K[0, 1, 0, :]\<close> as the
  second key: it ends the row with \<open>m_i = 2\<close> and \<open>l_i = 1 + exp (- 1 / 2)\<close> and stores
  \<open>1 / 2 + ln (1 + exp (- 1 / 2))\<close>, in the one store to \<open>L[0, 0, 0]\<close>.
\<close>

theorem fwd_mixed_layout_log_normalizer:
  "map_sum id saved (snd (forward rtx3090 zeros host0 c2_q c8_k c2_v False None)) = Inr c8_fwd
   \<and> map_sum id (stores_to 0 \<circ> l_stores) (snd (forward rtx3090 zeros host0 c2_q c8_k c2_v False None))
       = Inr [(0, Fin (1 / 2 + ln (1 + exp (- (1 / 2)))))]
   \<and> fst (fwd_loop c8_fwd c2_q c8_k c2_v zeros 0 0 0 0) = Fin 2
   \<and> fst (snd (fwd_loop c8_fwd c2_q c8_k c2_v zeros 0 0 0 0)) = Fin (1 + exp (- (1 / 2)))
   \<and> log_normalizer_ref c8_fwd c2_q c8_k 0 0 0 = 1 / 4 + ln (1 + exp (- (1 / 4)))
   \<and> 1 / 2 + ln (1 + exp (- (1 / 2))) \<noteq> 1 / 4 + ln (1 + exp (- (1 / 4 :: real)))"
proof -
  define r where "r = \<lparr>o_stores = launch_grid (cdiv (dim_n c2_q) (BLOCK_M c8_fwd), dim_h c2_q, dim_z c2_q)
                          (fwd_kernel_O c8_fwd c2_q c8_k c2_v (empty_like c2_q) zeros),
                    l_stores = launch_grid (cdiv (dim_n c2_q) (BLOCK_M c8_fwd), dim_h c2_q, dim_z c2_q)
                          (fwd_kernel_L c8_fwd c2_q c8_k c2_v zeros),
                    saved = c8_fwd\<rparr>"
  have dims: "dim_k c2_q = 16" "dim_k c8_k = 16" "dim_k c2_v = 16" "device c2_q = 0"
    "dim_n c2_q = 2" "dim_h c2_q = 2" "dim_z c2_q = 1"
    by (simp_all add: c2_q_def c8_k_def c2_v_def BHTD_def BTHD_def)
  have res: "snd (forward rtx3090 zeros host0 c2_q c8_k c2_v False None) = Inr r"
    by (simp add: forward_def Let_def r_def dims rtx3090_def c8_fwd_def)
  have ls: "l_stores r = launch_grid (cdiv (N_CTX c8_fwd) (BLOCK_M c8_fwd), nheads c8_fwd, 1)
                          (fwd_kernel_L c8_fwd c2_q c8_k c2_v zeros)"
    by (simp add: r_def dims c8_fwd_eq)
  have B: "0 < BLOCK_M c8_fwd" and dm: "DIVISIBLE_M c8_fwd = (N_CTX c8_fwd mod BLOCK_M c8_fwd = 0)"
    and h: "0 < nheads c8_fwd" and m: "0 < N_CTX c8_fwd"
    by (simp_all add: c8_fwd_eq)
  note g = fwd_L_grid [OF B dm zero_less_one h m, of c2_q c8_k c2_v zeros]
  have t: "0 div BLOCK_M c8_fwd = 0" "0 mod BLOCK_M c8_fwd = 0" by simp_all
  have mem: "(0, Fin (1 / 2 + ln (1 + exp (- (1 / 2))))) \<in> set (l_stores r)"
    using g(2) unfolding ls t c8_forward_L(2) by simp
  have cnt: "length (filter (\<lambda>s. fst s = 0) (l_stores r)) = 1"
    using g(1) unfolding ls by simp
  have 1: "map_sum id saved (snd (forward rtx3090 zeros host0 c2_q c8_k c2_v False None)) = Inr c8_fwd"
    unfolding res by (simp add: r_def)
  have 2: "map_sum id (stores_to 0 \<circ> l_stores) (snd (forward rtx3090 zeros host0 c2_q c8_k c2_v False None))
       = Inr [(0, Fin (1 / 2 + ln (1 + exp (- (1 / 2)))))]"
    unfolding res using stores_to_single [OF cnt mem] by simp
  from c8_forward_L(1) obtain acc
    where st: "fwd_loop c8_fwd c2_q c8_k c2_v zeros 0 0 0 0 = (Fin 2, Fin (1 + exp (- (1 / 2))), acc)" ..
  have 3: "fst (fwd_loop c8_fwd c2_q c8_k c2_v zeros 0 0 0 0) = Fin 2"
    and 4: "fst (snd (fwd_loop c8_fwd c2_q c8_k c2_v zeros 0 0 0 0)) = Fin (1 + exp (- (1 / 2)))"
    by (simp_all add: st)
  from 1 2 3 4 c8_log_normalizer_ref c8_values_differ show ?thesis by blast
qed

end
